theory Spec2Isabelle
  imports Main
begin

section \<open>Strings\<close>

text \<open>
  A JavaScript string is modelled as a \<^typ>\<open>string\<close>: one \<^typ>\<open>char\<close> per code unit,
  restricted to the code units below 256. The emoji that prefix the fixed messages of
  the source are left out of the message literals.
\<close>

definition startsWith :: "string \<Rightarrow> string \<Rightarrow> bool" where
  "startsWith s t = (take (length t) s = t)"

definition endsWith :: "string \<Rightarrow> string \<Rightarrow> bool" where
  "endsWith s t = (length t \<le> length s \<and> drop (length s - length t) s = t)"

fun includesStr :: "string \<Rightarrow> string \<Rightarrow> bool" where
  "includesStr [] t = (t = [])"
| "includesStr (c # cs) t = (startsWith (c # cs) t \<or> includesStr cs t)"

text \<open>White space and line terminators that \<^verbatim>\<open>String.prototype.trim\<close> strips,
  among the code units below 256.\<close>

definition isWhiteSpace :: "char \<Rightarrow> bool" where
  "isWhiteSpace c = (c \<in> {CHR 0x09, CHR 0x0A, CHR 0x0B, CHR 0x0C, CHR 0x0D, CHR 0x20, CHR 0xA0})"

definition trim :: "string \<Rightarrow> string" where
  "trim s = rev (dropWhile isWhiteSpace (rev (dropWhile isWhiteSpace s)))"

text \<open>\<^verbatim>\<open>xs.slice(-n)\<close> for a positive \<open>n\<close>: the last \<open>n\<close> elements, all of them when
  there are fewer.\<close>

definition slice_last :: "nat \<Rightarrow> 'a list \<Rightarrow> 'a list" where
  "slice_last n xs = drop (length xs - n) xs"

text \<open>\<^verbatim>\<open>s.split(sep)\<close> for a one-character separator.\<close>

fun split_on :: "char \<Rightarrow> string \<Rightarrow> string list" where
  "split_on sep [] = [[]]"
| "split_on sep (c # cs) =
     (if c = sep then [] # split_on sep cs
      else (case split_on sep cs of
              [] \<Rightarrow> [[c]]
            | w # ws \<Rightarrow> (c # w) # ws))"

section \<open>The sandbox lifecycle controller (useWebContainer.ts)\<close>

text \<open>
  The module-level singletons (\<open>webcontainerInstance\<close>, \<open>bootPromise\<close>,
  \<open>preWarmPromise\<close>, \<open>isPreWarmedFlag\<close>), the React state of the hook and
  \<open>processRef\<close> are the fields of one record. An engine instance, a process handle and
  a promise are modelled by natural-number identities. The last six fields record what
  the hook asked of the engine: the promises created by \<open>boot\<close> with their outcome (the
  promise with identity \<open>p\<close> is \<open>promises ! p\<close>), the number of
  \<^verbatim>\<open>WebContainer.boot()\<close> calls, whether the server-ready listener is registered, the
  processes killed, the commands spawned, and the files written into the live file
  system (path and content).
\<close>

datatype outcome = Pending | Resolved nat | Rejected string

record hook_state =
  webcontainerInstance :: "nat option"
  bootPromise :: "nat option"
  preWarmPromise :: "nat option"
  isPreWarmedFlag :: bool
  isBooting :: bool
  isInstalling :: bool
  isRunning :: bool
  previewUrl :: "string option"
  error :: "string option"
  terminalOutput :: "string list"
  isPreWarmed :: bool
  isPreWarming :: bool
  processRef :: "nat option"
  promises :: "outcome list"
  engineBoots :: nat
  serverReadyListener :: bool
  killed :: "nat list"
  spawned :: "(string \<times> string list) list"
  written :: "(string \<times> string) list"

definition hook_init :: hook_state where
  "hook_init = \<lparr>
     webcontainerInstance = None, bootPromise = None, preWarmPromise = None,
     isPreWarmedFlag = False, isBooting = False, isInstalling = False, isRunning = False,
     previewUrl = None, error = None, terminalOutput = [], isPreWarmed = False,
     isPreWarming = False, processRef = None, promises = [], engineBoots = 0,
     serverReadyListener = False, killed = [], spawned = [], written = [] \<rparr>"

subsection \<open>appendOutput\<close>

definition appendOutput :: "string \<Rightarrow> hook_state \<Rightarrow> hook_state" where
  "appendOutput line s =
     (if includesStr line ''[0K'' \<or> includesStr line ''[1G'' \<or> length (trim line) < 2 then s
      else s\<lparr>terminalOutput := slice_last 100 (terminalOutput s) @ [line]\<rparr>)"

subsection \<open>boot\<close>

text \<open>
  \<open>boot\<close> is an async function: a call returns either the existing instance or a
  promise. The body of the inner async block runs synchronously up to
  \<^verbatim>\<open>await WebContainer.boot()\<close>, so a call that starts a boot sets \<open>isBooting\<close>,
  clears \<open>error\<close>, logs, issues the engine boot and stores the new promise in one step.
  The continuation after the await is \<open>engine_resolves\<close>, the catch block is
  \<open>engine_rejects\<close>; each runs when the engine settles the boot behind promise \<open>p\<close>.
\<close>

datatype boot_result = Returned_instance nat | Returned_promise nat

definition boot :: "hook_state \<Rightarrow> boot_result \<times> hook_state" where
  "boot s =
     (case webcontainerInstance s of
        Some i \<Rightarrow> (Returned_instance i, s)
      | None \<Rightarrow>
          (case bootPromise s of
             Some p \<Rightarrow> (Returned_promise p, s)
           | None \<Rightarrow>
               (let s1 = s\<lparr>isBooting := True, error := None\<rparr>;
                    s2 = appendOutput ''Booting WebContainer...'' s1;
                    p = length (promises s2);
                    s3 = s2\<lparr>engineBoots := engineBoots s2 + 1,
                            promises := promises s2 @ [Pending]\<rparr>
                in (Returned_promise p, s3\<lparr>bootPromise := Some p\<rparr>))))"

definition engine_resolves :: "nat \<Rightarrow> nat \<Rightarrow> hook_state \<Rightarrow> hook_state" where
  "engine_resolves p inst s =
     (if p < length (promises s) \<and> promises s ! p = Pending then
        (let s1 = s\<lparr>webcontainerInstance := Some inst, serverReadyListener := True\<rparr>;
             s2 = appendOutput ''WebContainer booted'' s1;
             s3 = s2\<lparr>isBooting := False\<rparr>
         in s3\<lparr>promises := (promises s3)[p := Resolved inst]\<rparr>)
      else s)"

definition engine_rejects :: "nat \<Rightarrow> string \<Rightarrow> hook_state \<Rightarrow> hook_state" where
  "engine_rejects p message s =
     (if p < length (promises s) \<and> promises s ! p = Pending then
        (let s1 = s\<lparr>error := Some message\<rparr>;
             s2 = appendOutput (''Error: '' @ message) s1;
             s3 = s2\<lparr>isBooting := False, bootPromise := None\<rparr>
         in s3\<lparr>promises := (promises s3)[p := Rejected message]\<rparr>)
      else s)"

text \<open>The listener registered on \<^verbatim>\<open>server-ready\<close>.\<close>

definition server_ready :: "string \<Rightarrow> hook_state \<Rightarrow> hook_state" where
  "server_ready url s =
     (if serverReadyListener s then
        (appendOutput (''Server ready at '' @ url) s)
          \<lparr>previewUrl := Some url, isRunning := True, isInstalling := False\<rparr>
      else s)"

text \<open>
  A session of boot requests: callers call \<open>boot\<close>, and the engine settles pending
  boots, in any order. The run collects what each caller was handed.
\<close>

datatype boot_event = BootCalled | EngineResolves nat nat | EngineRejects nat string

fun boot_step :: "boot_event \<Rightarrow> boot_result list \<times> hook_state \<Rightarrow> boot_result list \<times> hook_state" where
  "boot_step BootCalled (rs, s) = (let (r, s') = boot s in (rs @ [r], s'))"
| "boot_step (EngineResolves p inst) (rs, s) = (rs, engine_resolves p inst s)"
| "boot_step (EngineRejects p message) (rs, s) = (rs, engine_rejects p message s)"

definition boot_run :: "boot_event list \<Rightarrow> boot_result list \<times> hook_state" where
  "boot_run evs = fold boot_step evs ([], hook_init)"

text \<open>The instance a caller ends up with, once its promise has resolved.\<close>

fun resolves_to :: "hook_state \<Rightarrow> boot_result \<Rightarrow> nat option" where
  "resolves_to s (Returned_instance i) = Some i"
| "resolves_to s (Returned_promise p) =
     (if p < length (promises s) then
        (case promises s ! p of Resolved i \<Rightarrow> Some i | _ \<Rightarrow> None)
      else None)"

fun is_rejected :: "outcome \<Rightarrow> bool" where
  "is_rejected (Rejected message) = True"
| "is_rejected _ = False"

definition failed_boots :: "hook_state \<Rightarrow> nat" where
  "failed_boots s = length (filter is_rejected (promises s))"

text \<open>
  What holds of the singletons after every session of boot requests: each engine boot
  made one promise; every promise but the one \<open>bootPromise\<close> holds has been rejected; a
  pending promise is the one \<open>bootPromise\<close> holds, and no instance exists while it is
  pending; a resolved promise resolved to the stored instance; and a caller handed an
  instance was handed the stored one.
\<close>

definition boot_inv :: "boot_result list \<times> hook_state \<Rightarrow> bool" where
  "boot_inv c =
     (let rs = fst c; s = snd c
      in engineBoots s = length (promises s) \<and>
         length (promises s) = failed_boots s + (if bootPromise s = None then 0 else 1) \<and>
         (\<forall>q < length (promises s). promises s ! q = Pending \<longrightarrow>
            bootPromise s = Some q \<and> webcontainerInstance s = None) \<and>
         (\<forall>q < length (promises s). \<forall>i. promises s ! q = Resolved i \<longrightarrow>
            webcontainerInstance s = Some i) \<and>
         (\<forall>i. Returned_instance i \<in> set rs \<longrightarrow> webcontainerInstance s = Some i))"

subsection \<open>reset\<close>

definition reset :: "hook_state \<Rightarrow> hook_state" where
  "reset s =
     (let s1 = (case processRef s of
                  Some pr \<Rightarrow> s\<lparr>killed := killed s @ [pr], processRef := None\<rparr>
                | None \<Rightarrow> s)
      in s1\<lparr>previewUrl := None, isRunning := False, isInstalling := False,
            error := None, terminalOutput := []\<rparr>)"

subsection \<open>Awaiting boot, process output, updateFile, startDevServer\<close>

text \<open>
  What the engine does when a caller awaits \<open>boot()\<close> and a boot has to be settled.
  A caller handed the existing instance goes on with it; a caller handed the pending
  promise goes on when the engine settles that promise.
\<close>

datatype engine_answer = Boots nat | FailsToBoot string

definition await_boot :: "engine_answer \<Rightarrow> hook_state \<Rightarrow> (string + nat) \<times> hook_state" where
  "await_boot ans s =
     (case boot s of
        (Returned_instance i, s') \<Rightarrow> (Inr i, s')
      | (Returned_promise p, s') \<Rightarrow>
          (case ans of
             Boots i \<Rightarrow> (Inr i, engine_resolves p i s')
           | FailsToBoot message \<Rightarrow> (Inl message, engine_rejects p message s')))"

text \<open>The stream sink of a process: \<^verbatim>\<open>data.split('\n').filter(Boolean).forEach(appendOutput)\<close>.\<close>

definition write_chunk :: "string \<Rightarrow> hook_state \<Rightarrow> hook_state" where
  "write_chunk data s = fold appendOutput (filter (\<lambda>l. l \<noteq> []) (split_on (CHR 0x0A) data)) s"

definition npm_install :: "string \<times> string list" where
  "npm_install = (''npm'', [''install'', ''--prefer-offline'', ''--no-audit'', ''--no-fund'', ''--legacy-peer-deps''])"

definition npm_run_dev :: "string \<times> string list" where
  "npm_run_dev = (''npm'', [''run'', ''dev''])"

text \<open>
  The engine's side of one \<open>startDevServer\<close> run: how a boot is settled, what
  \<^verbatim>\<open>instance.spawn\<close> gives for the install and for the dev server (the message of the
  error it throws, or a process handle), the chunks the install process writes before it
  exits, and its exit code. \<open>startDevServer\<close> awaits \<^verbatim>\<open>installProcess.exit\<close> and drops
  the value, so \<open>installExit\<close> does not occur in its definition.
\<close>

record run_env =
  engine :: engine_answer
  installProcess :: "string + nat"
  installOutput :: "string list"
  installExit :: int
  devProcess :: "string + nat"

definition start_failed :: "string \<Rightarrow> hook_state \<Rightarrow> hook_state" where
  "start_failed message s = s\<lparr>error := Some message, isInstalling := False\<rparr>"

text \<open>
  \<open>startDevServer\<close> suspends at \<^verbatim>\<open>await installProcess.exit\<close>, with the install process
  in a local variable and not in \<open>processRef\<close>. \<open>startDevServer_begin\<close> is the part
  before that await: it either returns (the catch block has run) or suspends with the
  handle of the install process. While it is suspended the install process writes its
  chunks, and other handlers of the hook may run. \<open>startDevServer_resume\<close> is the part
  after the await. \<open>startDevServer\<close> is a run with nothing but the install output in
  between.
\<close>

datatype start_progress = Start_returned | Awaiting_install nat

definition startDevServer_begin :: "run_env \<Rightarrow> hook_state \<Rightarrow> start_progress \<times> hook_state" where
  "startDevServer_begin env s =
     (case await_boot (engine env) s of
        (Inl message, s0) \<Rightarrow> (Start_returned, start_failed message s0)
      | (Inr instance, s0) \<Rightarrow>
          (let s1 = (case processRef s0 of
                       Some pr \<Rightarrow> s0\<lparr>killed := killed s0 @ [pr]\<rparr>
                     | None \<Rightarrow> s0);
               s2 = s1\<lparr>previewUrl := None, isInstalling := True\<rparr>;
               s3 = appendOutput ''Installing project dependencies...'' s2
           in case installProcess env of
                Inl message \<Rightarrow> (Start_returned, start_failed message s3)
              | Inr ip \<Rightarrow> (Awaiting_install ip, s3\<lparr>spawned := spawned s3 @ [npm_install]\<rparr>)))"

definition startDevServer_resume :: "run_env \<Rightarrow> hook_state \<Rightarrow> hook_state" where
  "startDevServer_resume env s5 =
     (let s6 = appendOutput ''Dependencies ready'' s5;
          s7 = appendOutput ''Starting dev server...'' s6
      in case devProcess env of
           Inl message \<Rightarrow> start_failed message s7
         | Inr dp \<Rightarrow> s7\<lparr>spawned := spawned s7 @ [npm_run_dev], processRef := Some dp\<rparr>)"

definition startDevServer :: "run_env \<Rightarrow> hook_state \<Rightarrow> hook_state" where
  "startDevServer env s =
     (case startDevServer_begin env s of
        (Start_returned, s') \<Rightarrow> s'
      | (Awaiting_install ip, s4) \<Rightarrow>
          startDevServer_resume env (fold write_chunk (installOutput env) s4))"

text \<open>
  \<open>updateFile\<close>: the engine's side is how a boot is settled and whether
  \<^verbatim>\<open>instance.fs.writeFile\<close> succeeds (\<open>None\<close>) or throws (the rendered error).
\<close>

record fs_env =
  fs_engine :: engine_answer
  writeFile :: "string option"

definition updateFile ::
  "fs_env \<Rightarrow> string \<Rightarrow> string \<Rightarrow> hook_state \<Rightarrow> hook_state" where
  "updateFile env path content s =
     (case await_boot (fs_engine env) s of
        (Inl err, s0) \<Rightarrow> appendOutput (''Failed to update '' @ path @ '': '' @ err) s0
      | (Inr instance, s0) \<Rightarrow>
          (case writeFile env of
             Some err \<Rightarrow> appendOutput (''Failed to update '' @ path @ '': '' @ err) s0
           | None \<Rightarrow>
               appendOutput (''Updated: '' @ path) (s0\<lparr>written := written s0 @ [(path, content)]\<rparr>)))"

section \<open>The file tree (fileUtils.ts, zipUtils.ts)\<close>

datatype node_type = File | Directory

datatype FileNode =
  FileNode (name: string) (path: string) (type: node_type)
           (content: "string option") (children: "FileNode list option")

text \<open>\<open>flattenFiles\<close>: the inner \<open>traverse\<close> pushes to \<open>result\<close> in pre-order.\<close>

fun traverse :: "FileNode list \<Rightarrow> FileNode list" where
  "traverse [] = []"
| "traverse (FileNode nm p t c ch # nodes) =
     (if t = File then [FileNode nm p t c ch] else [])
     @ (case ch of None \<Rightarrow> [] | Some cs \<Rightarrow> traverse cs)
     @ traverse nodes"

definition flattenFiles :: "FileNode list \<Rightarrow> FileNode list" where
  "flattenFiles files = traverse files"

text \<open>\<open>updateFileInTree\<close>, the local function of \<open>fixCodeError\<close>, with the target's path
  and the fixed code as arguments.\<close>

fun updateFileInTree :: "string \<Rightarrow> string \<Rightarrow> FileNode list \<Rightarrow> FileNode list" where
  "updateFileInTree target fixedCode [] = []"
| "updateFileInTree target fixedCode (FileNode nm p t c ch # nodes) =
     (if p = target then FileNode nm p t (Some fixedCode) ch
      else (case ch of
              Some cs \<Rightarrow> FileNode nm p t c (Some (updateFileInTree target fixedCode cs))
            | None \<Rightarrow> FileNode nm p t c ch))
     # updateFileInTree target fixedCode nodes"

section \<open>The error signal extractor (parseError)\<close>

text \<open>
  The regular expressions of \<open>parseError\<close> are values of a small syntax: a pattern is
  a sequence of items. The items are the ones the source's patterns are built from:
  literal text, one character of a class, a class repeated (\<open>+\<close>, \<open>*\<close>, the lazy \<open>+?\<close>),
  an optional character, an alternative, and the end of input (\<open>$\<close> without the
  multiline flag). Capture groups are left out: the source reads no group, only the
  whole match.
\<close>

datatype atom = Ch char | Word | Space

datatype cls = OneOf "atom list" | NoneOf "atom list" | Dot

datatype rx =
    Lit string
  | One cls
  | Plus cls
  | Star cls
  | LazyPlus cls
  | Opt char
  | Alt "rx list"
  | EndOfInput

type_synonym regex = "rx list"

definition isWordChar :: "char \<Rightarrow> bool" where
  "isWordChar c =
     (let n = (of_char c :: nat)
      in (48 \<le> n \<and> n \<le> 57) \<or> (65 \<le> n \<and> n \<le> 90) \<or> (97 \<le> n \<and> n \<le> 122) \<or> n = 95)"

definition isLineTerminator :: "char \<Rightarrow> bool" where
  "isLineTerminator c = (c = CHR 0x0A \<or> c = CHR 0x0D)"

fun atom_matches :: "atom \<Rightarrow> char \<Rightarrow> bool" where
  "atom_matches (Ch a) c = (c = a)"
| "atom_matches Word c = isWordChar c"
| "atom_matches Space c = isWhiteSpace c"

fun cls_matches :: "cls \<Rightarrow> char \<Rightarrow> bool" where
  "cls_matches (OneOf as) c = list_ex (\<lambda>a. atom_matches a c) as"
| "cls_matches (NoneOf as) c = (\<not> list_ex (\<lambda>a. atom_matches a c) as)"
| "cls_matches Dot c = (\<not> isLineTerminator c)"

text \<open>
  The matcher returns what is left of the input after every way an item can match at
  the start of it, in the order in which a backtracking matcher tries them: a greedy
  repetition gives its longest match first, a lazy one its shortest.
\<close>

fun greedy_rems :: "(char \<Rightarrow> bool) \<Rightarrow> string \<Rightarrow> string list" where
  "greedy_rems P [] = []"
| "greedy_rems P (c # cs) = (if P c then greedy_rems P cs @ [cs] else [])"

fun lazy_rems :: "(char \<Rightarrow> bool) \<Rightarrow> string \<Rightarrow> string list" where
  "lazy_rems P [] = []"
| "lazy_rems P (c # cs) = (if P c then cs # lazy_rems P cs else [])"

fun rems :: "rx \<Rightarrow> string \<Rightarrow> string list" where
  "rems (Lit t) s = (if startsWith s t then [drop (length t) s] else [])"
| "rems (One k) s = (case s of [] \<Rightarrow> [] | c # cs \<Rightarrow> if cls_matches k c then [cs] else [])"
| "rems (Plus k) s = greedy_rems (cls_matches k) s"
| "rems (Star k) s = greedy_rems (cls_matches k) s @ [s]"
| "rems (LazyPlus k) s = lazy_rems (cls_matches k) s"
| "rems (Opt a) s = (case s of [] \<Rightarrow> [s] | c # cs \<Rightarrow> if c = a then [cs, s] else [s])"
| "rems (Alt rs) s = concat (map (\<lambda>r. rems r s) rs)"
| "rems EndOfInput s = (if s = [] then [s] else [])"

fun seq_rems :: "regex \<Rightarrow> string \<Rightarrow> string list" where
  "seq_rems [] s = [s]"
| "seq_rems (r # rs) s = concat (map (seq_rems rs) (rems r s))"

text \<open>The match that starts at the first character of \<open>s\<close>, if there is one.\<close>

definition match_at :: "regex \<Rightarrow> string \<Rightarrow> string option" where
  "match_at re s =
     (case seq_rems re s of
        [] \<Rightarrow> None
      | rest # _ \<Rightarrow> Some (take (length s - length rest) s))"

text \<open>\<^verbatim>\<open>text.match(re)\<close> without the global flag: the leftmost match, \<open>[0]\<close> of the
  result.\<close>

fun exec :: "regex \<Rightarrow> string \<Rightarrow> string option" where
  "exec re [] = match_at re []"
| "exec re (c # cs) =
     (case match_at re (c # cs) of
        Some m \<Rightarrow> Some m
      | None \<Rightarrow> exec re cs)"

definition test :: "regex \<Rightarrow> string \<Rightarrow> bool" where
  "test re text = (exec re text \<noteq> None)"

definition quote :: cls where
  "quote = OneOf [Ch (CHR 0x22), Ch (CHR 0x27)]"

definition notQuote :: cls where
  "notQuote = NoneOf [Ch (CHR 0x22), Ch (CHR 0x27)]"

definition patterns :: "regex list" where
  "patterns =
     [ [Lit ''Failed to resolve import '', One quote, Plus notQuote, One quote,
        Lit '' from '', One quote, Plus notQuote, One quote],
       [Lit ''Cannot find module '', One quote, Plus notQuote, One quote],
       [Plus (OneOf [Word]), Lit '' is not defined''],
       [Alt [Lit ''SyntaxError'', Lit ''TypeError'', Lit ''ReferenceError''], Lit '':'',
        Star (OneOf [Space]), LazyPlus Dot, Alt [Lit [CHR 0x0A], EndOfInput]] ]"

text \<open>\<^verbatim>\<open>/(?:src\/[\w\-\/]+\.tsx?)/\<close>\<close>

definition filePattern :: regex where
  "filePattern = [Lit ''src/'', Plus (OneOf [Word, Ch CHR ''-'', Ch CHR ''/'']), Lit ''.ts'', Opt CHR ''x'']"

fun join :: "string \<Rightarrow> string list \<Rightarrow> string" where
  "join sep [] = []"
| "join sep [x] = x"
| "join sep (x # y # ys) = x @ sep @ join sep (y # ys)"

text \<open>The \<open>for\<close> loop of \<open>parseError\<close> over the patterns. The result is the pair
  \<open>(file, error)\<close>.\<close>

fun first_candidate :: "regex list \<Rightarrow> string \<Rightarrow> (string \<times> string) option" where
  "first_candidate [] text = None"
| "first_candidate (pattern # rest) text =
     (if test pattern text then
        (case exec filePattern text of
           Some fileMatch \<Rightarrow> Some (fileMatch, slice_last 500 text)
         | None \<Rightarrow> first_candidate rest text)
      else first_candidate rest text)"

definition parseError :: "string list \<Rightarrow> (string \<times> string) option" where
  "parseError output = first_candidate patterns (join [CHR 0x0A] (slice_last 60 output))"

text \<open>The line \<^verbatim>\<open>Failed to resolve import './Foo' from 'src/App.tsx'\<close>.\<close>

definition resolve_import_line :: string where
  "resolve_import_line =
     ''Failed to resolve import '' @ [CHR 0x27] @ ''./Foo'' @ [CHR 0x27] @ '' from ''
     @ [CHR 0x27] @ ''src/App.tsx'' @ [CHR 0x27]"

text \<open>An output with that line after one other line and before another.\<close>

definition import_error_output :: "string list" where
  "import_error_output = [''oops'', resolve_import_line, ''  at plugin vite'']"

section \<open>The self-healing loop (App)\<close>

definition API_URL :: string where
  "API_URL = ''http://localhost:3001''"

definition MAX_FIX_ATTEMPTS :: nat where
  "MAX_FIX_ATTEMPTS = 15"

text \<open>
  An entry of the fix log is the emoji that tags it and the text after it:
  \<open>Cross\<close> for a failure, \<open>Wrench\<close> for an attempt, \<open>Check\<close> for a success,
  \<open>RedCircle\<close> and \<open>Warning\<close> for the runtime-error entries.
\<close>

datatype emoji = Cross | Wrench | Check | RedCircle | Warning

type_synonym log_entry = "emoji \<times> string"

text \<open>
  The state of \<open>App\<close>: its React state, its refs and the state of the hook it uses.
  A state setter is modelled as an assignment that takes effect at once.
  \<open>fixerRequests\<close> records the bodies posted to \<^verbatim>\<open>/api/fix-error\<close>, as
  \<open>(error, filePath, fileContent)\<close>.
\<close>

record app_state =
  files :: "FileNode list"
  selectedFile :: "FileNode option"
  isFixing :: bool
  fixCount :: nat
  currentAction :: "string option"
  fixLog :: "log_entry list"
  fixingRef :: bool
  fixAttempts :: nat
  lastErrorRef :: string
  filesRef :: "FileNode list"
  hook :: hook_state
  fixerRequests :: "(string \<times> string \<times> string) list"

definition app_init :: "FileNode list \<Rightarrow> hook_state \<Rightarrow> app_state" where
  "app_init fs h = \<lparr>
     files = fs, selectedFile = None, isFixing = False, fixCount = 0, currentAction = None,
     fixLog = [], fixingRef = False, fixAttempts = 0, lastErrorRef = [], filesRef = fs,
     hook = h, fixerRequests = [] \<rparr>"

text \<open>\<^verbatim>\<open>s.replace(pat, by)\<close> with a string pattern: the first occurrence only.\<close>

fun replace_first :: "string \<Rightarrow> string \<Rightarrow> string \<Rightarrow> string" where
  "replace_first pat by [] = (if pat = [] then by else [])"
| "replace_first pat by (c # cs) =
     (if startsWith (c # cs) pat then by @ drop (length pat) (c # cs)
      else c # replace_first pat by cs)"

text \<open>\<^verbatim>\<open>!targetFile?.content\<close> is false exactly when a file was found and its content is a
  non-empty string.\<close>

definition has_content :: "FileNode option \<Rightarrow> bool" where
  "has_content t =
     (case t of
        None \<Rightarrow> False
      | Some f \<Rightarrow> (case content f of None \<Rightarrow> False | Some c \<Rightarrow> c \<noteq> []))"

text \<open>The predicate of the first \<open>find\<close> of \<open>fixCodeError\<close>.\<close>

definition path_matches :: "string \<Rightarrow> FileNode \<Rightarrow> bool" where
  "path_matches errorFile f =
     (path f = errorFile \<or>
      endsWith (path f) errorFile \<or>
      includesStr (path f) (replace_first ''src/'' [] errorFile))"

text \<open>The value of \<open>targetFile\<close> when \<open>fixCodeError\<close> reaches its second
  \<^verbatim>\<open>!targetFile?.content\<close> test.\<close>

definition resolveTarget :: "FileNode list \<Rightarrow> string \<Rightarrow> FileNode option" where
  "resolveTarget allFiles errorFile =
     (let targetFile = find (path_matches errorFile) allFiles
      in if \<not> has_content targetFile then
           (let fileName = last (split_on CHR ''/'' errorFile)
            in if fileName \<noteq> [] then find (\<lambda>f. name f = fileName) allFiles
               else targetFile)
         else targetFile)"

text \<open>The \<open>finally\<close> block of \<open>fixCodeError\<close>.\<close>

definition finally_block :: "app_state \<Rightarrow> app_state" where
  "finally_block s = s\<lparr>fixingRef := False, isFixing := False, currentAction := None\<rparr>"

text \<open>
  \<open>fixCodeError\<close> runs synchronously up to \<^verbatim>\<open>await fetch(...)\<close>:
  \<open>fixCodeError_start\<close> either returns, or posts the request and suspends with the
  target file it resolved. \<open>fixCodeError_resume\<close> is the rest, run when the fixer has
  answered: the request fails in transport or in decoding (the rendered error), the
  response is not ok, or its body has a \<open>fixedCode\<close> (absent, or a string).
\<close>

datatype fix_progress = Returned bool | Suspended FileNode

datatype fix_response = Request_fails string | Not_ok | Json "string option"

definition fixCodeError_start :: "string \<Rightarrow> string \<Rightarrow> app_state \<Rightarrow> fix_progress \<times> app_state" where
  "fixCodeError_start errorFile errorText s =
     (if fixingRef s then (Returned False, s)
      else
        (let errorKey = errorFile @ '':'' @ take 50 errorText
         in if errorKey = lastErrorRef s then (Returned False, s)
            else
              (let s1 = s\<lparr>lastErrorRef := errorKey, fixingRef := True, isFixing := True,
                           currentAction := Some (''Fixing: '' @ errorFile),
                           fixAttempts := fixAttempts s + 1\<rparr>;
                   allFiles = flattenFiles (filesRef s1);
                   targetFile = resolveTarget allFiles errorFile
               in if \<not> has_content targetFile then
                    (Returned False,
                     finally_block
                       (s1\<lparr>fixLog := fixLog s1 @ [(Cross, ''File not found: '' @ errorFile)]\<rparr>))
                  else
                    (case targetFile of
                       None \<Rightarrow> (Returned False, finally_block s1)
                     | Some t \<Rightarrow>
                         (Suspended t,
                          s1\<lparr>fixLog := fixLog s1 @ [(Wrench, ''Fixing: '' @ path t)],
                              fixerRequests := fixerRequests s1 @
                                [(errorText, path t, case content t of Some c \<Rightarrow> c | None \<Rightarrow> [])]\<rparr>)))))"

definition fixCodeError_resume ::
  "FileNode \<Rightarrow> fix_response \<Rightarrow> fs_env \<Rightarrow> app_state \<Rightarrow> bool \<times> app_state" where
  "fixCodeError_resume targetFile response env s =
     (case response of
        Request_fails err \<Rightarrow>
          (False, finally_block (s\<lparr>fixLog := fixLog s @ [(Cross, ''Error: '' @ err)]\<rparr>))
      | Not_ok \<Rightarrow>
          (False, finally_block (s\<lparr>fixLog := fixLog s @ [(Cross, ''Error: Error: Backend failed'')]\<rparr>))
      | Json None \<Rightarrow> (False, finally_block s)
      | Json (Some fixedCode) \<Rightarrow>
          (if fixedCode \<noteq> [] \<and> Some fixedCode \<noteq> content targetFile then
             (let s1 = s\<lparr>hook := updateFile env (path targetFile) fixedCode (hook s)\<rparr>;
                  s2 = s1\<lparr>files := updateFileInTree (path targetFile) fixedCode (filesRef s1)\<rparr>;
                  s3 = s2\<lparr>fixCount := fixCount s2 + 1\<rparr>;
                  s4 = s3\<lparr>fixLog := fixLog s3 @ [(Check, ''Fixed: '' @ path targetFile)]\<rparr>
              in (True, finally_block s4))
           else (False, finally_block s)))"

text \<open>A whole call of \<open>fixCodeError\<close>, from the call to the value it returns.\<close>

definition fixCodeError ::
  "string \<Rightarrow> string \<Rightarrow> fix_response \<Rightarrow> fs_env \<Rightarrow> app_state \<Rightarrow> bool \<times> app_state" where
  "fixCodeError errorFile errorText response env s =
     (case fixCodeError_start errorFile errorText s of
        (Returned b, s') \<Rightarrow> (b, s')
      | (Suspended t, s') \<Rightarrow> fixCodeError_resume t response env s')"

text \<open>The effect that keeps \<open>filesRef\<close> in sync with \<open>files\<close>.\<close>

definition sync_filesRef :: "app_state \<Rightarrow> app_state" where
  "sync_filesRef s = s\<lparr>filesRef := files s\<rparr>"

subsection \<open>The two triggers\<close>

text \<open>Modelled from the spec: \<open>parseStackTrace\<close> of \<^verbatim>\<open>utils/errorReporter\<close> is not among the
  sources. The spec's \<open>fromRuntimeMessage\<close> extracts the first path fragment of the stack
  that matches the project-source-file pattern, and nothing if there is none.\<close>

definition parseStackTrace :: "string \<Rightarrow> string option" where
  "parseStackTrace stack = exec filePattern stack"

text \<open>The data of a \<^verbatim>\<open>message\<close> event.\<close>

record message_data =
  msg_type :: string
  msg_message :: string
  msg_stack :: string
  msg_errorType :: string

text \<open>
  A session of the loop: the state of \<open>App\<close>, the call of \<open>fixCodeError\<close> that is
  suspended at the fixer (if any), the timeout set by the terminal-watching effect and
  not yet fired or cleared, and the timeouts set by the runtime-error handler, oldest
  first. A timeout holds the arguments of the \<open>fixCodeError\<close> call it will make.
\<close>

record session =
  app :: app_state
  suspended :: "FileNode option"
  terminalTimer :: "(string \<times> string) option"
  runtimeTimers :: "(string \<times> string) list"

definition session_init :: "FileNode list \<Rightarrow> hook_state \<Rightarrow> session" where
  "session_init fs h = \<lparr> app = app_init fs h, suspended = None, terminalTimer = None, runtimeTimers = [] \<rparr>"

text \<open>A timeout fires: it calls \<open>fixCodeError\<close> and drops the promise it returns.\<close>

definition call_fixCodeError :: "string \<Rightarrow> string \<Rightarrow> session \<Rightarrow> session" where
  "call_fixCodeError errorFile errorText c =
     (case fixCodeError_start errorFile errorText (app c) of
        (Returned b, s') \<Rightarrow> c\<lparr>app := s'\<rparr>
      | (Suspended t, s') \<Rightarrow> c\<lparr>app := s', suspended := Some t\<rparr>)"

text \<open>The terminal-watching effect: the cleanup of its previous run clears the timeout
  that run set, then the body runs.\<close>

definition terminal_effect :: "session \<Rightarrow> session" where
  "terminal_effect c =
     (let c0 = c\<lparr>terminalTimer := None\<rparr>; s = app c0
      in if \<not> isRunning (hook s) \<or> fixingRef s \<or> isFixing s then c0
         else if fixAttempts s \<ge> MAX_FIX_ATTEMPTS then c0
         else (case parseError (terminalOutput (hook s)) of
                 None \<Rightarrow> c0
               | Some (file, err) \<Rightarrow>
                   if file \<noteq> [] then c0\<lparr>terminalTimer := Some (file, err)\<rparr> else c0))"

definition handleRuntimeError :: "message_data \<Rightarrow> session \<Rightarrow> session" where
  "handleRuntimeError d c =
     (let s = app c
      in if msg_type d \<noteq> ''RUNTIME_ERROR'' then c
         else if \<not> isRunning (hook s) \<or> fixingRef s \<or> isFixing s then c
         else if fixAttempts s \<ge> MAX_FIX_ATTEMPTS then c
         else (let filePath = (case parseStackTrace (msg_stack d) of Some p \<Rightarrow> p | None \<Rightarrow> [])
               in if filePath \<noteq> [] then
                    (let errorContext =
                           ''Runtime Error ('' @ msg_errorType d @ '')'' @ [CHR 0x0A] @ msg_message d
                           @ [CHR 0x0A, CHR 0x0A] @ ''Stack trace:'' @ [CHR 0x0A] @ msg_stack d
                     in c\<lparr>app := s\<lparr>fixLog := fixLog s @ [(RedCircle, ''Runtime Error in '' @ filePath)]\<rparr>,
                          runtimeTimers := runtimeTimers c @ [(filePath, errorContext)]\<rparr>)
                  else
                    c\<lparr>app := s\<lparr>fixLog := fixLog s @
                           [(Warning, ''Runtime error detected but file path not found'')]\<rparr>\<rparr>))"

datatype session_event =
    TerminalEffect
  | TerminalTimerFires
  | RuntimeMessage message_data
  | RuntimeTimerFires
  | FixerAnswers fix_response fs_env

fun session_step :: "session_event \<Rightarrow> session \<Rightarrow> session" where
  "session_step TerminalEffect c = terminal_effect c"
| "session_step TerminalTimerFires c =
     (case terminalTimer c of
        None \<Rightarrow> c
      | Some (file, err) \<Rightarrow> call_fixCodeError file err (c\<lparr>terminalTimer := None\<rparr>))"
| "session_step (RuntimeMessage d) c = handleRuntimeError d c"
| "session_step RuntimeTimerFires c =
     (case runtimeTimers c of
        [] \<Rightarrow> c
      | (file, err) # rest \<Rightarrow> call_fixCodeError file err (c\<lparr>runtimeTimers := rest\<rparr>))"
| "session_step (FixerAnswers response env) c =
     (case suspended c of
        None \<Rightarrow> c
      | Some t \<Rightarrow> c\<lparr>app := snd (fixCodeError_resume t response env (app c)), suspended := None\<rparr>)"

definition session_run :: "session_event list \<Rightarrow> session \<Rightarrow> session" where
  "session_run evs c = fold session_step evs c"

text \<open>
  A session on a project of two files whose fixer is down: a runtime error is reported
  in one file, its timeout fires, and the fixer's answer is not ok; then the same in the
  other file; seven times over. Then both errors are reported before either timeout
  fires, and the two timeouts fire, the fixer answering in between.
\<close>

definition two_files :: "FileNode list" where
  "two_files =
     [FileNode ''src'' ''src'' Directory None
        (Some [FileNode ''A.tsx'' ''src/A.tsx'' File (Some ''a'') None,
               FileNode ''B.tsx'' ''src/B.tsx'' File (Some ''b'') None])]"

definition running_hook :: hook_state where
  "running_hook = server_ready ''http://localhost:5173'' (engine_resolves 0 0 (snd (boot hook_init)))"

definition runtime_error_at :: "string \<Rightarrow> message_data" where
  "runtime_error_at file =
     \<lparr>msg_type = ''RUNTIME_ERROR'', msg_message = ''boom'',
      msg_stack = ''at '' @ file @ '':1:1'', msg_errorType = ''error''\<rparr>"

definition fixer_down :: session_event where
  "fixer_down = FixerAnswers Not_ok \<lparr>fs_engine = Boots 0, writeFile = None\<rparr>"

definition failed_attempt :: "string \<Rightarrow> session_event list" where
  "failed_attempt file = [RuntimeMessage (runtime_error_at file), RuntimeTimerFires, fixer_down]"

definition overrun_trace :: "session_event list" where
  "overrun_trace =
     concat (replicate 7 (failed_attempt ''src/A.tsx'' @ failed_attempt ''src/B.tsx''))
     @ [RuntimeMessage (runtime_error_at ''src/A.tsx''),
        RuntimeMessage (runtime_error_at ''src/B.tsx''),
        RuntimeTimerFires, fixer_down, RuntimeTimerFires]"

section \<open>Properties of the output buffer\<close>

lemma appendOutput_fields [simp]:
  "webcontainerInstance (appendOutput l s) = webcontainerInstance s"
  "bootPromise (appendOutput l s) = bootPromise s"
  "preWarmPromise (appendOutput l s) = preWarmPromise s"
  "isPreWarmedFlag (appendOutput l s) = isPreWarmedFlag s"
  "isBooting (appendOutput l s) = isBooting s"
  "isInstalling (appendOutput l s) = isInstalling s"
  "isRunning (appendOutput l s) = isRunning s"
  "previewUrl (appendOutput l s) = previewUrl s"
  "error (appendOutput l s) = error s"
  "isPreWarmed (appendOutput l s) = isPreWarmed s"
  "isPreWarming (appendOutput l s) = isPreWarming s"
  "processRef (appendOutput l s) = processRef s"
  "promises (appendOutput l s) = promises s"
  "engineBoots (appendOutput l s) = engineBoots s"
  "serverReadyListener (appendOutput l s) = serverReadyListener s"
  "killed (appendOutput l s) = killed s"
  "spawned (appendOutput l s) = spawned s"
  "written (appendOutput l s) = written s"
  by (simp_all add: appendOutput_def)

lemma appendOutput_buffer:
  "terminalOutput (appendOutput l s) =
     (if includesStr l ''[0K'' \<or> includesStr l ''[1G'' \<or> length (trim l) < 2 then terminalOutput s
      else slice_last 100 (terminalOutput s) @ [l])"
  by (simp add: appendOutput_def)

lemma length_slice_last: "length (slice_last n xs) = min n (length xs)"
  by (simp add: slice_last_def)

lemma set_slice_last: "set (slice_last n xs) \<subseteq> set xs"
  by (simp add: slice_last_def set_drop_subset)

lemma appendOutput_bound: "length (terminalOutput (appendOutput l s)) \<le> max 101 (length (terminalOutput s))"
  by (auto simp add: appendOutput_buffer length_slice_last)

text \<open>An append keeps the arrival order and evicts from the front only.\<close>

lemma appendOutput_keeps_order:
  "terminalOutput (appendOutput l s) = terminalOutput s \<or>
   (\<exists>k. terminalOutput (appendOutput l s) = drop k (terminalOutput s) @ [l])"
  by (auto simp add: appendOutput_buffer slice_last_def)

lemma ok_accepted: "\<not> (includesStr ''ok'' ''[0K'' \<or> includesStr ''ok'' ''[1G'' \<or> length (trim ''ok'') < 2)"
  by (simp add: startsWith_def trim_def isWhiteSpace_def)

lemma fold_ok_length:
  "length (terminalOutput (fold appendOutput (replicate (Suc n) ''ok'') s)) = min (length (terminalOutput s) + Suc n) 101"
proof (induction n arbitrary: s)
  case 0
  show ?case using ok_accepted by (simp add: appendOutput_buffer length_slice_last)
next
  case (Suc n)
  have "fold appendOutput (replicate (Suc (Suc n)) ''ok'') s = fold appendOutput (replicate (Suc n) ''ok'') (appendOutput ''ok'' s)"
    by simp
  then show ?case using Suc[of "appendOutput ''ok'' s"] ok_accepted
    by (simp add: appendOutput_buffer length_slice_last del: replicate.simps fold_replicate)
qed

text \<open>
  C9 (the output buffer is capped at the 100 most recent lines). \<open>appendOutput\<close> keeps
  the last 100 lines of the previous buffer and then appends the new line, so the cap it
  enforces is 101: offered 101 accepted lines from the empty buffer, the buffer holds
  101 lines.
\<close>

theorem appendOutput_exceeds_cap:
  "length (terminalOutput (fold appendOutput (replicate 101 ''ok'') hook_init)) = 101"
proof -
  have e: "Suc 100 = 101" by simp
  show ?thesis using fold_ok_length[of 100 hook_init] unfolding e by (simp add: hook_init_def)
qed

lemma set_appendOutput:
  "set (terminalOutput (appendOutput l s)) \<subseteq> set (terminalOutput s) \<union>
     (if includesStr l ''[0K'' \<or> includesStr l ''[1G'' \<or> length (trim l) < 2 then {} else {l})"
  using set_slice_last[of 100 "terminalOutput s"] by (auto simp add: appendOutput_buffer)

lemma noise_never_enters:
  assumes "includesStr line ''[0K'' \<or> includesStr line ''[1G'' \<or> length (trim line) < 2"
  shows "line \<notin> set (terminalOutput s) \<Longrightarrow> line \<notin> set (terminalOutput (fold appendOutput lines s))"
proof (induction lines arbitrary: s)
  case Nil
  then show ?case by simp
next
  case (Cons l lines)
  have "line \<notin> set (terminalOutput (appendOutput l s))"
    using set_appendOutput[of l s] Cons.prems assms by (auto split: if_splits)
  then show ?case using Cons.IH by simp
qed

text \<open>
  C10 (every offered line is filtered). A line that contains \<open>[0K\<close> or \<open>[1G\<close>, or
  whose trimmed length is below 2, leaves the state as it is, and whatever lines are
  offered afterwards or before, it is not in the buffer unless it was there before the
  first offer.
\<close>

theorem appendOutput_drops_noise:
  assumes "includesStr line ''[0K'' \<or> includesStr line ''[1G'' \<or> length (trim line) < 2"
  shows "appendOutput line s = s \<and>
         (line \<notin> set (terminalOutput s0) \<longrightarrow> line \<notin> set (terminalOutput (fold appendOutput lines s0)))"
  using assms noise_never_enters[OF assms] by (simp add: appendOutput_def)

theorem appendOutput_drops_noise_witness:
  "length (trim '' a '') < 2 \<and> appendOutput '' a '' hook_init = hook_init \<and>
   '' a '' \<notin> set (terminalOutput (fold appendOutput [''ok'', '' a '', ''hello''] hook_init))"
proof -
  have h: "includesStr '' a '' ''[0K'' \<or> includesStr '' a '' ''[1G'' \<or> length (trim '' a '') < 2"
    by (simp add: trim_def isWhiteSpace_def)
  have "length (trim '' a '') < 2" by (simp add: trim_def isWhiteSpace_def)
  then show ?thesis
    using appendOutput_drops_noise[OF h, of hook_init hook_init "[''ok'', '' a '', ''hello'']"]
    by (simp add: hook_init_def)
qed

section \<open>Properties of reset\<close>

text \<open>
  What \<open>reset\<close> does to the state. From any state, it kills the process \<open>processRef\<close>
  holds, if any, and forgets it; clears the preview URL, the running and installing
  flags, the error and the output buffer; and leaves the instance, the boot promises and
  the pre-warm state as they were.
\<close>

theorem reset_clears:
  "(\<forall>pr. processRef s = Some pr \<longrightarrow> killed (reset s) = killed s @ [pr]) \<and>
   processRef (reset s) = None \<and>
   previewUrl (reset s) = None \<and>
   \<not> isRunning (reset s) \<and>
   \<not> isInstalling (reset s) \<and>
   error (reset s) = None \<and>
   terminalOutput (reset s) = [] \<and>
   webcontainerInstance (reset s) = webcontainerInstance s \<and>
   bootPromise (reset s) = bootPromise s \<and>
   promises (reset s) = promises s \<and>
   preWarmPromise (reset s) = preWarmPromise s \<and>
   isPreWarmedFlag (reset s) = isPreWarmedFlag s \<and>
   isPreWarmed (reset s) = isPreWarmed s \<and>
   isPreWarming (reset s) = isPreWarming s"
  by (simp add: reset_def Let_def split: option.split)

theorem reset_clears_witness:
  "processRef (hook_init\<lparr>processRef := Some 7, isRunning := True, previewUrl := Some ''http://x'',
       error := Some ''e'', terminalOutput := [''line''], webcontainerInstance := Some 3\<rparr>) = Some 7 \<and>
   killed (reset (hook_init\<lparr>processRef := Some 7, isRunning := True, previewUrl := Some ''http://x'',
       error := Some ''e'', terminalOutput := [''line''], webcontainerInstance := Some 3\<rparr>)) = [7] \<and>
   terminalOutput (reset (hook_init\<lparr>processRef := Some 7, isRunning := True, previewUrl := Some ''http://x'',
       error := Some ''e'', terminalOutput := [''line''], webcontainerInstance := Some 3\<rparr>)) = [] \<and>
   webcontainerInstance (reset (hook_init\<lparr>processRef := Some 7, isRunning := True, previewUrl := Some ''http://x'',
       error := Some ''e'', terminalOutput := [''line''], webcontainerInstance := Some 3\<rparr>)) = Some 3"
  using reset_clears[of "hook_init\<lparr>processRef := Some 7, isRunning := True, previewUrl := Some ''http://x'',
       error := Some ''e'', terminalOutput := [''line''], webcontainerInstance := Some 3\<rparr>"]
  by (simp add: hook_init_def)

text \<open>
  C8 (after \<open>reset\<close> the active process has been terminated and the session state is
  clear). \<open>reset\<close> kills only the process in \<open>processRef\<close>, and \<open>startDevServer\<close>
  never stores the install process there. When \<open>reset\<close> runs while \<open>startDevServer\<close>
  awaits the exit of the install process, no process is killed: the install process
  runs on, and when it exits the rest of \<open>startDevServer\<close> spawns the dev server and
  stores it in \<open>processRef\<close>, in the session that was reset.
\<close>

theorem reset_leaves_installer_running:
  "fst (startDevServer_begin
          \<lparr>engine = Boots 0, installProcess = Inr 1, installOutput = [], installExit = 0,
           devProcess = Inr 2\<rparr> hook_init) = Awaiting_install 1 \<and>
   spawned (snd (startDevServer_begin
          \<lparr>engine = Boots 0, installProcess = Inr 1, installOutput = [], installExit = 0,
           devProcess = Inr 2\<rparr> hook_init)) = [npm_install] \<and>
   processRef (snd (startDevServer_begin
          \<lparr>engine = Boots 0, installProcess = Inr 1, installOutput = [], installExit = 0,
           devProcess = Inr 2\<rparr> hook_init)) = None \<and>
   killed (reset (snd (startDevServer_begin
          \<lparr>engine = Boots 0, installProcess = Inr 1, installOutput = [], installExit = 0,
           devProcess = Inr 2\<rparr> hook_init))) = [] \<and>
   spawned (startDevServer_resume
          \<lparr>engine = Boots 0, installProcess = Inr 1, installOutput = [], installExit = 0,
           devProcess = Inr 2\<rparr>
          (reset (snd (startDevServer_begin
             \<lparr>engine = Boots 0, installProcess = Inr 1, installOutput = [], installExit = 0,
              devProcess = Inr 2\<rparr> hook_init)))) = [npm_install, npm_run_dev] \<and>
   processRef (startDevServer_resume
          \<lparr>engine = Boots 0, installProcess = Inr 1, installOutput = [], installExit = 0,
           devProcess = Inr 2\<rparr>
          (reset (snd (startDevServer_begin
             \<lparr>engine = Boots 0, installProcess = Inr 1, installOutput = [], installExit = 0,
              devProcess = Inr 2\<rparr> hook_init)))) = Some 2 \<and>
   killed (startDevServer_resume
          \<lparr>engine = Boots 0, installProcess = Inr 1, installOutput = [], installExit = 0,
           devProcess = Inr 2\<rparr>
          (reset (snd (startDevServer_begin
             \<lparr>engine = Boots 0, installProcess = Inr 1, installOutput = [], installExit = 0,
              devProcess = Inr 2\<rparr> hook_init)))) = []"
  by (simp add: startDevServer_begin_def startDevServer_resume_def reset_def await_boot_def
      boot_def engine_resolves_def hook_init_def Let_def)

section \<open>Properties of boot\<close>

lemma count_update_rejected:
  "p < length xs \<Longrightarrow> \<not> is_rejected (xs ! p) \<Longrightarrow>
   length (filter is_rejected (xs[p := Rejected m])) = Suc (length (filter is_rejected xs))"
proof (induction xs arbitrary: p)
  case Nil
  then show ?case by simp
next
  case (Cons x xs)
  then show ?case by (cases p) auto
qed

lemma count_update_resolved:
  "p < length xs \<Longrightarrow> \<not> is_rejected (xs ! p) \<Longrightarrow>
   length (filter is_rejected (xs[p := Resolved i])) = length (filter is_rejected xs)"
proof (induction xs arbitrary: p)
  case Nil
  then show ?case by simp
next
  case (Cons x xs)
  then show ?case by (cases p) auto
qed

lemma boot_existing:
  "webcontainerInstance s = Some i \<Longrightarrow> boot s = (Returned_instance i, s)"
  by (simp add: boot_def)

lemma boot_in_flight:
  "webcontainerInstance s = None \<Longrightarrow> bootPromise s = Some p \<Longrightarrow> boot s = (Returned_promise p, s)"
  by (simp add: boot_def)

lemma boot_new:
  assumes "webcontainerInstance s = None" "bootPromise s = None"
  shows "fst (boot s) = Returned_promise (length (promises s))"
    and "promises (snd (boot s)) = promises s @ [Pending]"
    and "engineBoots (snd (boot s)) = engineBoots s + 1"
    and "bootPromise (snd (boot s)) = Some (length (promises s))"
    and "webcontainerInstance (snd (boot s)) = None"
  using assms by (simp_all add: boot_def Let_def)

lemma engine_resolves_idle:
  "\<not> (p < length (promises s) \<and> promises s ! p = Pending) \<Longrightarrow> engine_resolves p inst s = s"
  by (auto simp add: engine_resolves_def)

lemma engine_resolves_pending:
  assumes "p < length (promises s)" "promises s ! p = Pending"
  shows "promises (engine_resolves p inst s) = (promises s)[p := Resolved inst]"
    and "engineBoots (engine_resolves p inst s) = engineBoots s"
    and "bootPromise (engine_resolves p inst s) = bootPromise s"
    and "webcontainerInstance (engine_resolves p inst s) = Some inst"
  using assms by (simp_all add: engine_resolves_def Let_def)

lemma engine_rejects_idle:
  "\<not> (p < length (promises s) \<and> promises s ! p = Pending) \<Longrightarrow> engine_rejects p message s = s"
  by (auto simp add: engine_rejects_def)

lemma engine_rejects_pending:
  assumes "p < length (promises s)" "promises s ! p = Pending"
  shows "promises (engine_rejects p message s) = (promises s)[p := Rejected message]"
    and "engineBoots (engine_rejects p message s) = engineBoots s"
    and "bootPromise (engine_rejects p message s) = None"
    and "webcontainerInstance (engine_rejects p message s) = webcontainerInstance s"
  using assms by (simp_all add: engine_rejects_def Let_def)

lemma boot_inv_init: "boot_inv ([], hook_init)"
  by (simp add: boot_inv_def hook_init_def failed_boots_def)



lemma boot_invI:
  assumes "engineBoots s = length (promises s)"
    and "length (promises s) = failed_boots s + (if bootPromise s = None then 0 else 1)"
    and "\<And>q. q < length (promises s) \<Longrightarrow> promises s ! q = Pending \<Longrightarrow> bootPromise s = Some q"
    and "\<And>q. q < length (promises s) \<Longrightarrow> promises s ! q = Pending \<Longrightarrow> webcontainerInstance s = None"
    and "\<And>q i. q < length (promises s) \<Longrightarrow> promises s ! q = Resolved i \<Longrightarrow> webcontainerInstance s = Some i"
    and "\<And>i. Returned_instance i \<in> set rs \<Longrightarrow> webcontainerInstance s = Some i"
  shows "boot_inv (rs, s)"
  unfolding boot_inv_def Let_def fst_conv snd_conv using assms by blast

lemma boot_invD:
  assumes "boot_inv (rs, s)"
  shows "engineBoots s = length (promises s)"
    and "length (promises s) = failed_boots s + (if bootPromise s = None then 0 else 1)"
    and "\<And>q. q < length (promises s) \<Longrightarrow> promises s ! q = Pending \<Longrightarrow> bootPromise s = Some q"
    and "\<And>q. q < length (promises s) \<Longrightarrow> promises s ! q = Pending \<Longrightarrow> webcontainerInstance s = None"
    and "\<And>q i. q < length (promises s) \<Longrightarrow> promises s ! q = Resolved i \<Longrightarrow> webcontainerInstance s = Some i"
    and "\<And>i. Returned_instance i \<in> set rs \<Longrightarrow> webcontainerInstance s = Some i"
  using assms unfolding boot_inv_def Let_def fst_conv snd_conv by blast+


lemma boot_inv_call:
  assumes inv: "boot_inv (rs, s)"
  shows "boot_inv (rs @ [fst (boot s)], snd (boot s))"
proof (cases "webcontainerInstance s")
  case (Some i)
  then have b: "boot s = (Returned_instance i, s)" by (rule boot_existing)
  have "boot_inv (rs @ [Returned_instance i], s)"
  proof (rule boot_invI)
    fix j assume "Returned_instance j \<in> set (rs @ [Returned_instance i])"
    then have "Returned_instance j \<in> set rs \<or> j = i" by auto
    then show "webcontainerInstance s = Some j" using boot_invD(6)[OF inv] Some by blast
  qed (rule boot_invD[OF inv]; assumption)+
  then show ?thesis by (simp add: b)
next
  case None
  show ?thesis
  proof (cases "bootPromise s")
    case (Some p)
    then have b: "boot s = (Returned_promise p, s)" using None by (simp add: boot_in_flight)
    have "boot_inv (rs @ [Returned_promise p], s)"
    proof (rule boot_invI)
      fix j assume "Returned_instance j \<in> set (rs @ [Returned_promise p])"
      then have "Returned_instance j \<in> set rs" by simp
      then show "webcontainerInstance s = Some j" by (rule boot_invD(6)[OF inv])
    qed (rule boot_invD[OF inv]; assumption)+
    then show ?thesis by (simp add: b)
  next
    case bn: None
    let ?s' = "snd (boot s)"
    note f = boot_new[OF None bn]
    have nopend: "\<And>q. q < length (promises s) \<Longrightarrow> promises s ! q \<noteq> Pending"
      using boot_invD(3)[OF inv] bn by fastforce
    have nores: "\<And>q i. q < length (promises s) \<Longrightarrow> promises s ! q \<noteq> Resolved i"
      using boot_invD(5)[OF inv] None by fastforce
    have noinst: "\<And>i. Returned_instance i \<notin> set rs"
      using boot_invD(6)[OF inv] None by fastforce
    have cnt: "length (promises s) = failed_boots s" "engineBoots s = length (promises s)"
      using boot_invD(1,2)[OF inv] bn by simp_all
    have fb: "failed_boots ?s' = failed_boots s"
      by (simp add: failed_boots_def f)
    have "boot_inv (rs @ [fst (boot s)], ?s')"
    proof (rule boot_invI)
      show "engineBoots ?s' = length (promises ?s')" using f cnt by simp
      show "length (promises ?s') = failed_boots ?s' + (if bootPromise ?s' = None then 0 else 1)"
        using f cnt fb by simp
    next
      fix q assume a: "q < length (promises ?s')" "promises ?s' ! q = Pending"
      have "q = length (promises s)"
      proof (rule ccontr)
        assume "q \<noteq> length (promises s)"
        then have "q < length (promises s)" using a(1) f(2) by simp
        then show False using nopend[of q] a(2) f(2) by (simp add: nth_append)
      qed
      then show "bootPromise ?s' = Some q" using f(4) by simp
    next
      fix q assume "q < length (promises ?s')" "promises ?s' ! q = Pending"
      show "webcontainerInstance ?s' = None" by (rule f(5))
    next
      fix q i assume a: "q < length (promises ?s')" "promises ?s' ! q = Resolved i"
      have "q < length (promises s)"
      proof (rule ccontr)
        assume "\<not> q < length (promises s)"
        then have "q = length (promises s)" using a(1) f(2) by simp
        then show False using a(2) f(2) by simp
      qed
      then have False using nores[of q i] a(2) f(2) by (simp add: nth_append)
      then show "webcontainerInstance ?s' = Some i" ..
    next
      fix i assume "Returned_instance i \<in> set (rs @ [fst (boot s)])"
      then have False using noinst[of i] f(1) by simp
      then show "webcontainerInstance ?s' = Some i" ..
    qed
    then show ?thesis .
  qed
qed


lemma boot_inv_resolves:
  assumes inv: "boot_inv (rs, s)"
  shows "boot_inv (rs, engine_resolves p inst s)"
proof (cases "p < length (promises s) \<and> promises s ! p = Pending")
  case False
  then show ?thesis using inv by (simp add: engine_resolves_idle)
next
  case True
  let ?s' = "engine_resolves p inst s"
  have pl: "p < length (promises s)" and pp: "promises s ! p = Pending" using True by simp_all
  note f = engine_resolves_pending[OF pl pp, of inst]
  have bp: "bootPromise s = Some p" by (rule boot_invD(3)[OF inv pl pp])
  have wn: "webcontainerInstance s = None" by (rule boot_invD(4)[OF inv pl pp])
  have onlyp: "\<And>q. q < length (promises s) \<Longrightarrow> promises s ! q = Pending \<Longrightarrow> q = p"
    using boot_invD(3)[OF inv] bp by fastforce
  have nores: "\<And>q i. q < length (promises s) \<Longrightarrow> promises s ! q \<noteq> Resolved i"
    using boot_invD(5)[OF inv] wn by fastforce
  have noinst: "\<And>i. Returned_instance i \<notin> set rs"
    using boot_invD(6)[OF inv] wn by fastforce
  have cnt: "length (promises s) = failed_boots s + 1" "engineBoots s = length (promises s)"
    using boot_invD(1,2)[OF inv] bp by simp_all
  have fb: "failed_boots ?s' = failed_boots s"
    using count_update_resolved[of p "promises s" inst] pl pp
    by (simp add: failed_boots_def f)
  show ?thesis
  proof (rule boot_invI)
    show "engineBoots ?s' = length (promises ?s')" using f cnt by simp
    show "length (promises ?s') = failed_boots ?s' + (if bootPromise ?s' = None then 0 else 1)"
      using f cnt fb bp by simp
  next
    fix q assume a: "q < length (promises ?s')" "promises ?s' ! q = Pending"
    have ql: "q < length (promises s)" using a(1) f(1) by simp
    have "q \<noteq> p" using a(2) f(1) pl by auto
    then have "promises s ! q = Pending" using a(2) f(1) by simp
    then have False using onlyp[OF ql] \<open>q \<noteq> p\<close> by simp
    then show "bootPromise ?s' = Some q" "webcontainerInstance ?s' = None" by simp_all
  next
    fix q i assume a: "q < length (promises ?s')" "promises ?s' ! q = Resolved i"
    have ql: "q < length (promises s)" using a(1) f(1) by simp
    show "webcontainerInstance ?s' = Some i"
    proof (cases "q = p")
      case True
      then have "i = inst" using a(2) f(1) pl by simp
      then show ?thesis using f(4) by simp
    next
      case False
      then have "promises s ! q = Resolved i" using a(2) f(1) by simp
      then show ?thesis using nores[OF ql] by simp
    qed
  next
    fix i assume "Returned_instance i \<in> set rs"
    then show "webcontainerInstance ?s' = Some i" using noinst by simp
  qed
qed

lemma boot_inv_rejects:
  assumes inv: "boot_inv (rs, s)"
  shows "boot_inv (rs, engine_rejects p message s)"
proof (cases "p < length (promises s) \<and> promises s ! p = Pending")
  case False
  then show ?thesis using inv by (simp add: engine_rejects_idle)
next
  case True
  let ?s' = "engine_rejects p message s"
  have pl: "p < length (promises s)" and pp: "promises s ! p = Pending" using True by simp_all
  note f = engine_rejects_pending[OF pl pp, of message]
  have bp: "bootPromise s = Some p" by (rule boot_invD(3)[OF inv pl pp])
  have wn: "webcontainerInstance s = None" by (rule boot_invD(4)[OF inv pl pp])
  have onlyp: "\<And>q. q < length (promises s) \<Longrightarrow> promises s ! q = Pending \<Longrightarrow> q = p"
    using boot_invD(3)[OF inv] bp by fastforce
  have nores: "\<And>q i. q < length (promises s) \<Longrightarrow> promises s ! q \<noteq> Resolved i"
    using boot_invD(5)[OF inv] wn by fastforce
  have noinst: "\<And>i. Returned_instance i \<notin> set rs"
    using boot_invD(6)[OF inv] wn by fastforce
  have cnt: "length (promises s) = failed_boots s + 1" "engineBoots s = length (promises s)"
    using boot_invD(1,2)[OF inv] bp by simp_all
  have fb: "failed_boots ?s' = Suc (failed_boots s)"
    using count_update_rejected[of p "promises s" message] pl pp
    by (simp add: failed_boots_def f)
  show ?thesis
  proof (rule boot_invI)
    show "engineBoots ?s' = length (promises ?s')" using f cnt by simp
    show "length (promises ?s') = failed_boots ?s' + (if bootPromise ?s' = None then 0 else 1)"
      using f cnt fb by simp
  next
    fix q assume a: "q < length (promises ?s')" "promises ?s' ! q = Pending"
    have ql: "q < length (promises s)" using a(1) f(1) by simp
    have "q \<noteq> p" using a(2) f(1) pl by auto
    then have "promises s ! q = Pending" using a(2) f(1) by simp
    then have False using onlyp[OF ql] \<open>q \<noteq> p\<close> by simp
    then show "bootPromise ?s' = Some q" "webcontainerInstance ?s' = None" by simp_all
  next
    fix q i assume a: "q < length (promises ?s')" "promises ?s' ! q = Resolved i"
    have ql: "q < length (promises s)" using a(1) f(1) by simp
    have "q \<noteq> p" using a(2) f(1) pl by auto
    then have "promises s ! q = Resolved i" using a(2) f(1) by simp
    then show "webcontainerInstance ?s' = Some i" using nores[OF ql] by simp
  next
    fix i assume "Returned_instance i \<in> set rs"
    then show "webcontainerInstance ?s' = Some i" using noinst by simp
  qed
qed

lemma boot_inv_step: "boot_inv c \<Longrightarrow> boot_inv (boot_step ev c)"
proof -
  assume inv: "boot_inv c"
  obtain rs s where c: "c = (rs, s)" by (cases c)
  show ?thesis
  proof (cases ev)
    case BootCalled
    have "boot_step BootCalled (rs, s) = (rs @ [fst (boot s)], snd (boot s))"
      by (simp add: split_beta)
    then show ?thesis using boot_inv_call[of rs s] inv c BootCalled by simp
  next
    case (EngineResolves p inst)
    then show ?thesis using boot_inv_resolves[of rs s p inst] inv c by simp
  next
    case (EngineRejects p message)
    then show ?thesis using boot_inv_rejects[of rs s p message] inv c by simp
  qed
qed

lemma boot_inv_fold: "boot_inv c \<Longrightarrow> boot_inv (fold boot_step evs c)"
proof (induction evs arbitrary: c)
  case Nil
  then show ?case by simp
next
  case (Cons ev evs)
  then show ?case using boot_inv_step[of c ev] by simp
qed

lemma boot_inv_run: "boot_inv (boot_run evs)"
  unfolding boot_run_def by (rule boot_inv_fold[OF boot_inv_init])

lemma resolves_to_instance:
  assumes inv: "boot_inv (rs, s)" and r: "r \<in> set rs" and res: "resolves_to s r = Some i"
  shows "webcontainerInstance s = Some i"
proof (cases r)
  case (Returned_instance j)
  then have "j = i" using res by simp
  then show ?thesis using boot_invD(6)[OF inv, of i] r Returned_instance by simp
next
  case (Returned_promise p)
  then have "p < length (promises s)" "promises s ! p = Resolved i"
    using res by (auto split: if_splits outcome.splits)
  then show ?thesis by (rule boot_invD(5)[OF inv])
qed

lemma boot_run_append: "boot_run (evs @ xs) = fold boot_step xs (boot_run evs)"
  by (simp add: boot_run_def)

lemma boot_after_rejection:
  assumes inv: "boot_inv (rs, t)" and pl: "p < length (promises t)" and pp: "promises t ! p = Pending"
  shows "bootPromise (engine_rejects p message t) = None"
    and "engineBoots (snd (boot (engine_rejects p message t))) = engineBoots t + 1"
    and "fst (boot (engine_rejects p message t)) = Returned_promise (length (promises t))"
proof -
  note f = engine_rejects_pending[OF pl pp, of message]
  have wn: "webcontainerInstance t = None" by (rule boot_invD(4)[OF inv pl pp])
  have w': "webcontainerInstance (engine_rejects p message t) = None" using f(4) wn by simp
  note n = boot_new[OF w' f(3)]
  show "bootPromise (engine_rejects p message t) = None" by (rule f(3))
  show "engineBoots (snd (boot (engine_rejects p message t))) = engineBoots t + 1"
    using n(3) f(2) by simp
  show "fst (boot (engine_rejects p message t)) = Returned_promise (length (promises t))"
    using n(1) f(1) by simp
qed

text \<open>
  C1 (boot requests are coalesced), as the code has it. After any session of boot
  requests: the engine boots issued are the boots that failed plus one if
  \<open>bootPromise\<close> is set, so at most one more than the boots that failed and at most one
  when none failed; at most one boot is in flight; all callers whose result resolved
  hold the same instance. In any state, \<open>boot\<close> returns the stored instance when there
  is one, and the stored pending promise when a boot is in flight, and changes nothing
  in either case. When the boot in flight fails, \<open>bootPromise\<close> is cleared, and the
  next call of \<open>boot\<close> issues one more engine boot and is handed a new promise.
\<close>

theorem boot_coalesced:
  "engineBoots (snd (boot_run evs)) \<le> 1 + failed_boots (snd (boot_run evs)) \<and>
   (\<forall>p q. p < length (promises (snd (boot_run evs))) \<and> q < length (promises (snd (boot_run evs))) \<and>
      promises (snd (boot_run evs)) ! p = Pending \<and> promises (snd (boot_run evs)) ! q = Pending \<longrightarrow> p = q) \<and>
   (\<forall>r1 \<in> set (fst (boot_run evs)). \<forall>r2 \<in> set (fst (boot_run evs)). \<forall>i j.
      resolves_to (snd (boot_run evs)) r1 = Some i \<and> resolves_to (snd (boot_run evs)) r2 = Some j \<longrightarrow> i = j) \<and>
   (\<forall>i. webcontainerInstance s = Some i \<longrightarrow> boot s = (Returned_instance i, s)) \<and>
   (\<forall>p. webcontainerInstance s = None \<and> bootPromise s = Some p \<longrightarrow> boot s = (Returned_promise p, s)) \<and>
   engineBoots (snd (boot_run evs))
     = failed_boots (snd (boot_run evs)) + (if bootPromise (snd (boot_run evs)) = None then 0 else 1) \<and>
   (\<forall>p message. p < length (promises (snd (boot_run evs))) \<and> promises (snd (boot_run evs)) ! p = Pending \<longrightarrow>
      bootPromise (engine_rejects p message (snd (boot_run evs))) = None \<and>
      engineBoots (snd (boot_run (evs @ [EngineRejects p message, BootCalled])))
        = engineBoots (snd (boot_run evs)) + 1 \<and>
      fst (boot_run (evs @ [EngineRejects p message, BootCalled]))
        = fst (boot_run evs) @ [Returned_promise (length (promises (snd (boot_run evs))))])"
proof -
  obtain rs t where c: "boot_run evs = (rs, t)" by (cases "boot_run evs")
  have inv: "boot_inv (rs, t)" using boot_inv_run[of evs] c by simp
  have a: "engineBoots t \<le> 1 + failed_boots t"
    using boot_invD(1,2)[OF inv] by (simp split: if_splits)
  have b: "\<forall>p q. p < length (promises t) \<and> q < length (promises t) \<and>
      promises t ! p = Pending \<and> promises t ! q = Pending \<longrightarrow> p = q"
  proof (intro allI impI)
    fix p q
    assume h: "p < length (promises t) \<and> q < length (promises t) \<and>
      promises t ! p = Pending \<and> promises t ! q = Pending"
    have "bootPromise t = Some p" using boot_invD(3)[OF inv, of p] h by simp
    moreover have "bootPromise t = Some q" using boot_invD(3)[OF inv, of q] h by simp
    ultimately show "p = q" by simp
  qed
  have d: "\<forall>r1 \<in> set rs. \<forall>r2 \<in> set rs. \<forall>i j.
      resolves_to t r1 = Some i \<and> resolves_to t r2 = Some j \<longrightarrow> i = j"
  proof (intro ballI allI impI)
    fix r1 r2 i j
    assume r: "r1 \<in> set rs" "r2 \<in> set rs"
      and h: "resolves_to t r1 = Some i \<and> resolves_to t r2 = Some j"
    have "webcontainerInstance t = Some i" using resolves_to_instance[OF inv r(1)] h by simp
    moreover have "webcontainerInstance t = Some j" using resolves_to_instance[OF inv r(2)] h by simp
    ultimately show "i = j" by simp
  qed
  have e: "\<forall>i. webcontainerInstance s = Some i \<longrightarrow> boot s = (Returned_instance i, s)"
    by (simp add: boot_existing)
  have g: "\<forall>p. webcontainerInstance s = None \<and> bootPromise s = Some p \<longrightarrow> boot s = (Returned_promise p, s)"
    by (simp add: boot_in_flight)
  have k: "engineBoots t = failed_boots t + (if bootPromise t = None then 0 else 1)"
    using boot_invD(1,2)[OF inv] by simp
  have r: "\<forall>p message. p < length (promises t) \<and> promises t ! p = Pending \<longrightarrow>
      bootPromise (engine_rejects p message t) = None \<and>
      engineBoots (snd (boot_run (evs @ [EngineRejects p message, BootCalled]))) = engineBoots t + 1 \<and>
      fst (boot_run (evs @ [EngineRejects p message, BootCalled]))
        = rs @ [Returned_promise (length (promises t))]"
  proof (intro allI impI)
    fix p message
    assume h: "p < length (promises t) \<and> promises t ! p = Pending"
    then have pl: "p < length (promises t)" and pp: "promises t ! p = Pending" by simp_all
    note ar = boot_after_rejection[OF inv pl pp, of message]
    have run: "boot_run (evs @ [EngineRejects p message, BootCalled])
        = (rs @ [fst (boot (engine_rejects p message t))], snd (boot (engine_rejects p message t)))"
      by (simp add: boot_run_append c split_beta)
    show "bootPromise (engine_rejects p message t) = None \<and>
      engineBoots (snd (boot_run (evs @ [EngineRejects p message, BootCalled]))) = engineBoots t + 1 \<and>
      fst (boot_run (evs @ [EngineRejects p message, BootCalled]))
        = rs @ [Returned_promise (length (promises t))]"
      using ar by (simp add: run)
  qed
  show ?thesis unfolding c fst_conv snd_conv
    by (intro conjI) (rule a, rule b, rule d, rule e, rule g, rule k, rule r[unfolded c fst_conv snd_conv])
qed

theorem boot_coalesced_witness:
  "(webcontainerInstance (snd (boot_run [BootCalled, BootCalled])) = None \<and>
    bootPromise (snd (boot_run [BootCalled, BootCalled])) = Some 0 \<and>
    boot (snd (boot_run [BootCalled, BootCalled])) = (Returned_promise 0, snd (boot_run [BootCalled, BootCalled]))) \<and>
   (webcontainerInstance (snd (boot_run [BootCalled, BootCalled, EngineResolves 0 5, BootCalled])) = Some 5 \<and>
    boot (snd (boot_run [BootCalled, BootCalled, EngineResolves 0 5, BootCalled]))
      = (Returned_instance 5, snd (boot_run [BootCalled, BootCalled, EngineResolves 0 5, BootCalled]))) \<and>
   fst (boot_run [BootCalled, BootCalled, EngineResolves 0 5, BootCalled])
     = [Returned_promise 0, Returned_promise 0, Returned_instance 5] \<and>
   resolves_to (snd (boot_run [BootCalled, BootCalled, EngineResolves 0 5, BootCalled])) (Returned_promise 0) = Some 5 \<and>
   resolves_to (snd (boot_run [BootCalled, BootCalled, EngineResolves 0 5, BootCalled])) (Returned_instance 5) = Some 5 \<and>
   engineBoots (snd (boot_run [BootCalled, BootCalled, EngineResolves 0 5, BootCalled]))
     \<le> 1 + failed_boots (snd (boot_run [BootCalled, BootCalled, EngineResolves 0 5, BootCalled])) \<and>
   (0 < length (promises (snd (boot_run [BootCalled, BootCalled]))) \<and>
    promises (snd (boot_run [BootCalled, BootCalled])) ! 0 = Pending \<and>
    engineBoots (snd (boot_run [BootCalled, BootCalled])) = 1 \<and>
    bootPromise (engine_rejects 0 ''boot failed'' (snd (boot_run [BootCalled, BootCalled]))) = None \<and>
    engineBoots (snd (boot_run ([BootCalled, BootCalled] @ [EngineRejects 0 ''boot failed'', BootCalled]))) = 2 \<and>
    fst (boot_run ([BootCalled, BootCalled] @ [EngineRejects 0 ''boot failed'', BootCalled]))
      = [Returned_promise 0, Returned_promise 0, Returned_promise 1])"
proof -
  let ?E1 = "[BootCalled, BootCalled, EngineResolves 0 5, BootCalled]"
  let ?E2 = "[BootCalled, BootCalled]"
  have e2: "webcontainerInstance (snd (boot_run ?E2)) = None" "bootPromise (snd (boot_run ?E2)) = Some 0"
    by (simp_all add: boot_run_def boot_def hook_init_def Let_def)
  have p2: "0 < length (promises (snd (boot_run ?E2)))" "promises (snd (boot_run ?E2)) ! 0 = Pending"
    "engineBoots (snd (boot_run ?E2)) = 1" "length (promises (snd (boot_run ?E2))) = 1"
    "fst (boot_run ?E2) = [Returned_promise 0, Returned_promise 0]"
    by (simp_all add: boot_run_def boot_def hook_init_def Let_def)
  have e1: "webcontainerInstance (snd (boot_run ?E1)) = Some 5"
    "fst (boot_run ?E1) = [Returned_promise 0, Returned_promise 0, Returned_instance 5]"
    "promises (snd (boot_run ?E1)) = [Resolved 5]"
    by (simp_all add: boot_run_def boot_def engine_resolves_def hook_init_def Let_def)
  have r: "resolves_to (snd (boot_run ?E1)) (Returned_promise 0) = Some 5"
    "resolves_to (snd (boot_run ?E1)) (Returned_instance 5) = Some 5"
    by (simp_all add: e1)
  note t2 = boot_coalesced[of ?E2 "snd (boot_run ?E2)"]
  note t1 = boot_coalesced[of ?E1 "snd (boot_run ?E1)"]
  have a: "boot (snd (boot_run ?E2)) = (Returned_promise 0, snd (boot_run ?E2))"
    using t2 e2 by blast
  have b: "boot (snd (boot_run ?E1)) = (Returned_instance 5, snd (boot_run ?E1))"
    using t1 e1(1) by blast
  have c: "engineBoots (snd (boot_run ?E1)) \<le> 1 + failed_boots (snd (boot_run ?E1))"
    using t1 by blast
  note retry = t2[THEN conjunct2, THEN conjunct2, THEN conjunct2, THEN conjunct2, THEN conjunct2,
      THEN conjunct2, THEN spec, THEN spec, THEN mp, OF conjI[OF p2(1) p2(2)], of "''boot failed''"]
  have d1: "bootPromise (engine_rejects 0 ''boot failed'' (snd (boot_run ?E2))) = None"
    by (rule retry[THEN conjunct1])
  have d2: "engineBoots (snd (boot_run (?E2 @ [EngineRejects 0 ''boot failed'', BootCalled]))) = 2"
    using retry[THEN conjunct2, THEN conjunct1] p2(3) by simp
  have d3: "fst (boot_run (?E2 @ [EngineRejects 0 ''boot failed'', BootCalled]))
      = [Returned_promise 0, Returned_promise 0, Returned_promise 1]"
    using retry[THEN conjunct2, THEN conjunct2] p2(4,5) by simp
  show ?thesis
    by (intro conjI) (rule e2(1), rule e2(2), rule a, rule e1(1), rule b, rule e1(2), rule r(1),
        rule r(2), rule c, rule p2(1), rule p2(2), rule p2(3), rule d1, rule d2, rule d3)
qed

text \<open>
  C1 as stated (at most one engine boot is ever issued, for every sequence of calls)
  fails after a failed boot: the catch block clears \<open>bootPromise\<close>, and the next call
  boots the engine again.
\<close>

theorem boot_retries_after_failure:
  "\<not> engineBoots (snd (boot_run [BootCalled, EngineRejects 0 ''boot failed'', BootCalled])) \<le> 1"
  by (simp add: boot_run_def boot_def engine_rejects_def hook_init_def Let_def)

section \<open>Properties of startDevServer\<close>

text \<open>
  C4 (a failed install stops the run). \<open>startDevServer\<close> awaits the exit of the install
  process and does not read the code: with an install that exits with code 1, it logs
  that the dependencies are ready, spawns the dev server, stores its handle and reports
  no error.
\<close>

theorem startDevServer_ignores_install_exit:
  "spawned (startDevServer
      \<lparr>engine = Boots 0, installProcess = Inr 1, installOutput = [''npm ERR! code E404''],
       installExit = 1, devProcess = Inr 2\<rparr> hook_init) = [npm_install, npm_run_dev] \<and>
   processRef (startDevServer
      \<lparr>engine = Boots 0, installProcess = Inr 1, installOutput = [''npm ERR! code E404''],
       installExit = 1, devProcess = Inr 2\<rparr> hook_init) = Some 2 \<and>
   error (startDevServer
      \<lparr>engine = Boots 0, installProcess = Inr 1, installOutput = [''npm ERR! code E404''],
       installExit = 1, devProcess = Inr 2\<rparr> hook_init) = None"
  by (simp add: startDevServer_def startDevServer_begin_def startDevServer_resume_def
      await_boot_def boot_def engine_resolves_def write_chunk_def hook_init_def Let_def)

section \<open>Properties of fixCodeError\<close>

lemma start_busy: "fixingRef s \<Longrightarrow> fixCodeError_start f t s = (Returned False, s)"
  by (simp add: fixCodeError_start_def)

lemma start_same_key:
  "f @ '':'' @ take 50 t = lastErrorRef s \<Longrightarrow> fixCodeError_start f t s = (Returned False, s)"
  by (simp add: fixCodeError_start_def Let_def)

lemma start_dropped:
  "fixingRef s \<or> f @ '':'' @ take 50 t = lastErrorRef s \<Longrightarrow> fixCodeError_start f t s = (Returned False, s)"
  using start_busy start_same_key by blast

lemma start_triggered:
  assumes "\<not> fixingRef s" "f @ '':'' @ take 50 t \<noteq> lastErrorRef s"
  shows "lastErrorRef (snd (fixCodeError_start f t s)) = f @ '':'' @ take 50 t"
    and "fixAttempts (snd (fixCodeError_start f t s)) = fixAttempts s + 1"
    and "length (fixerRequests (snd (fixCodeError_start f t s))) \<le> length (fixerRequests s) + 1"
  using assms by (simp_all add: fixCodeError_start_def Let_def finally_block_def split: option.split)

lemma start_requests_le:
  "length (fixerRequests (snd (fixCodeError_start f t s))) \<le> length (fixerRequests s) + 1"
proof (cases "fixingRef s \<or> f @ '':'' @ take 50 t = lastErrorRef s")
  case True
  then show ?thesis by (simp add: start_dropped)
next
  case False
  then show ?thesis using start_triggered(3)[of s f t] by simp
qed

lemma resume_keeps:
  "lastErrorRef (snd (fixCodeError_resume tg r e s)) = lastErrorRef s"
  "fixerRequests (snd (fixCodeError_resume tg r e s)) = fixerRequests s"
  "fixAttempts (snd (fixCodeError_resume tg r e s)) = fixAttempts s"
  by (simp_all add: fixCodeError_resume_def Let_def finally_block_def
      split: fix_response.split option.split)

text \<open>
  C3 (two consecutive candidates with the same dedup key make at most one fixer call).
  Take two calls of \<open>fixCodeError\<close> with the same file and error texts that agree on
  their first 50 characters, the second made either while the first is still suspended
  at the fixer or after it has resumed with whatever answer. Together they post at most
  one request; and when the first call passed the guards, the second returns
  \<open>false\<close> at once and changes nothing.
\<close>

theorem same_key_one_fixer_call:
  assumes k: "take 50 t1 = take 50 t2"
    and m: "s1 = snd (fixCodeError_start f t1 s) \<or>
            s1 = snd (fixCodeError_resume tg r e (snd (fixCodeError_start f t1 s)))"
  shows "length (fixerRequests (snd (fixCodeError_start f t2 s1))) \<le> length (fixerRequests s) + 1 \<and>
         (\<not> fixingRef s \<and> f @ '':'' @ take 50 t1 \<noteq> lastErrorRef s \<longrightarrow>
            fixCodeError_start f t2 s1 = (Returned False, s1))"
proof (cases "fixingRef s \<or> f @ '':'' @ take 50 t1 = lastErrorRef s")
  case True
  then have "snd (fixCodeError_start f t1 s) = s" by (simp add: start_dropped)
  then have "fixerRequests s1 = fixerRequests s" using m resume_keeps(2) by auto
  then show ?thesis using start_requests_le[of f t2 s1] True by auto
next
  case False
  then have nb: "\<not> fixingRef s" and nk: "f @ '':'' @ take 50 t1 \<noteq> lastErrorRef s" by simp_all
  have "lastErrorRef s1 = f @ '':'' @ take 50 t2"
    using m start_triggered(1)[OF nb nk] resume_keeps(1) k by auto
  then have d: "fixCodeError_start f t2 s1 = (Returned False, s1)" by (simp add: start_same_key)
  have "fixerRequests s1 = fixerRequests (snd (fixCodeError_start f t1 s))"
    using m resume_keeps(2) by auto
  then have "length (fixerRequests s1) \<le> length (fixerRequests s) + 1"
    using start_triggered(3)[OF nb nk] by simp
  then show ?thesis using d by simp
qed

theorem same_key_one_fixer_call_witness:
  "take 50 (replicate 50 CHR ''x'' @ ''first'') = take 50 (replicate 50 CHR ''x'' @ ''second'') \<and>
   \<not> fixingRef (app_init [FileNode ''App.tsx'' ''src/App.tsx'' File (Some ''code'') None] hook_init) \<and>
   ''src/App.tsx'' @ '':'' @ take 50 (replicate 50 CHR ''x'' @ ''first'')
     \<noteq> lastErrorRef (app_init [FileNode ''App.tsx'' ''src/App.tsx'' File (Some ''code'') None] hook_init) \<and>
   fst (fixCodeError_start ''src/App.tsx'' (replicate 50 CHR ''x'' @ ''first'')
          (app_init [FileNode ''App.tsx'' ''src/App.tsx'' File (Some ''code'') None] hook_init))
     = Suspended (FileNode ''App.tsx'' ''src/App.tsx'' File (Some ''code'') None) \<and>
   \<not> fixingRef
       (snd (fixCodeError_resume (FileNode ''App.tsx'' ''src/App.tsx'' File (Some ''code'') None) Not_ok
          \<lparr>fs_engine = Boots 0, writeFile = None\<rparr>
          (snd (fixCodeError_start ''src/App.tsx'' (replicate 50 CHR ''x'' @ ''first'')
             (app_init [FileNode ''App.tsx'' ''src/App.tsx'' File (Some ''code'') None] hook_init))))) \<and>
   length (fixerRequests
       (snd (fixCodeError_resume (FileNode ''App.tsx'' ''src/App.tsx'' File (Some ''code'') None) Not_ok
          \<lparr>fs_engine = Boots 0, writeFile = None\<rparr>
          (snd (fixCodeError_start ''src/App.tsx'' (replicate 50 CHR ''x'' @ ''first'')
             (app_init [FileNode ''App.tsx'' ''src/App.tsx'' File (Some ''code'') None] hook_init)))))) = 1 \<and>
   fixCodeError_start ''src/App.tsx'' (replicate 50 CHR ''x'' @ ''second'')
     (snd (fixCodeError_resume (FileNode ''App.tsx'' ''src/App.tsx'' File (Some ''code'') None) Not_ok
          \<lparr>fs_engine = Boots 0, writeFile = None\<rparr>
          (snd (fixCodeError_start ''src/App.tsx'' (replicate 50 CHR ''x'' @ ''first'')
             (app_init [FileNode ''App.tsx'' ''src/App.tsx'' File (Some ''code'') None] hook_init)))))
   = (Returned False,
      snd (fixCodeError_resume (FileNode ''App.tsx'' ''src/App.tsx'' File (Some ''code'') None) Not_ok
          \<lparr>fs_engine = Boots 0, writeFile = None\<rparr>
          (snd (fixCodeError_start ''src/App.tsx'' (replicate 50 CHR ''x'' @ ''first'')
             (app_init [FileNode ''App.tsx'' ''src/App.tsx'' File (Some ''code'') None] hook_init)))))"
proof -
  let ?n = "FileNode ''App.tsx'' ''src/App.tsx'' File (Some ''code'') None"
  let ?s = "app_init [?n] hook_init"
  let ?t1 = "replicate 50 CHR ''x'' @ ''first''"
  let ?t2 = "replicate 50 CHR ''x'' @ ''second''"
  let ?s1 = "snd (fixCodeError_resume ?n Not_ok \<lparr>fs_engine = Boots 0, writeFile = None\<rparr>
               (snd (fixCodeError_start ''src/App.tsx'' ?t1 ?s)))"
  have k: "take 50 ?t1 = take 50 ?t2" by simp
  have nb: "\<not> fixingRef ?s" by (simp add: app_init_def)
  have nk: "''src/App.tsx'' @ '':'' @ take 50 ?t1 \<noteq> lastErrorRef ?s" by (simp add: app_init_def)
  have st: "fst (fixCodeError_start ''src/App.tsx'' ?t1 ?s) = Suspended ?n"
    by (simp add: fixCodeError_start_def app_init_def Let_def flattenFiles_def resolveTarget_def
        path_matches_def has_content_def)
  have idle: "\<not> fixingRef ?s1"
    by (simp add: fixCodeError_resume_def finally_block_def)
  have "length (fixerRequests (snd (fixCodeError_start ''src/App.tsx'' ?t1 ?s))) = 1"
    by (simp add: fixCodeError_start_def app_init_def Let_def flattenFiles_def resolveTarget_def
        path_matches_def has_content_def)
  then have one: "length (fixerRequests ?s1) = 1"
    by (simp only: resume_keeps(2))
  have m: "?s1 = snd (fixCodeError_start ''src/App.tsx'' ?t1 ?s) \<or>
        ?s1 = snd (fixCodeError_resume ?n Not_ok \<lparr>fs_engine = Boots 0, writeFile = None\<rparr>
                 (snd (fixCodeError_start ''src/App.tsx'' ?t1 ?s)))"
    by (rule disjI2) (rule refl)
  note d = same_key_one_fixer_call[OF k m, THEN conjunct2, THEN mp, OF conjI[OF nb nk]]
  show ?thesis
    by (intro conjI) (rule k, rule nb, rule nk, rule st, rule idle, rule one, rule d)
qed

lemma start_suspended:
  assumes "fixCodeError_start f t s = (Suspended tg, s1)"
  shows "files s1 = files s" and "filesRef s1 = filesRef s" and "hook s1 = hook s"
    and "fixCount s1 = fixCount s"
    and "fixLog s1 = fixLog s @ [(Wrench, ''Fixing: '' @ path tg)]"
    and "resolveTarget (flattenFiles (filesRef s)) f = Some tg"
    and "fixerRequests s1 = fixerRequests s @ [(t, path tg, case content tg of Some c \<Rightarrow> c | None \<Rightarrow> [])]"
  using assms
  by (auto simp add: fixCodeError_start_def Let_def split: if_splits option.splits)

lemma resume_same_content:
  "content tg = Some c \<Longrightarrow> fixCodeError_resume tg (Json (Some c)) env s = (False, finally_block s)"
  by (simp add: fixCodeError_resume_def)

lemma finally_block_fields [simp]:
  "files (finally_block s) = files s"
  "filesRef (finally_block s) = filesRef s"
  "hook (finally_block s) = hook s"
  "fixCount (finally_block s) = fixCount s"
  "fixLog (finally_block s) = fixLog s"
  "fixerRequests (finally_block s) = fixerRequests s"
  "fixAttempts (finally_block s) = fixAttempts s"
  "lastErrorRef (finally_block s) = lastErrorRef s"
  "fixingRef (finally_block s) = False"
  "isFixing (finally_block s) = False"
  by (simp_all add: finally_block_def)

text \<open>
  C5 (a fix equal to the current content is no fix). When \<open>fixCodeError\<close> reached the
  fixer for the target \<open>tg\<close> and the fixer answers with the content of \<open>tg\<close>, the call
  returns \<open>false\<close>; the file tree and the state of the hook, with the files written
  to the live file system, are as before the call; the fix count is unchanged; and the
  only entry the call added to the fix log is the attempt entry, no success entry.
\<close>

theorem unchanged_fix_is_noop:
  assumes st: "fixCodeError_start f t s = (Suspended tg, s1)" and c: "content tg = Some c"
  shows "fst (fixCodeError f t (Json (Some c)) env s) = False \<and>
         files (snd (fixCodeError f t (Json (Some c)) env s)) = files s \<and>
         filesRef (snd (fixCodeError f t (Json (Some c)) env s)) = filesRef s \<and>
         hook (snd (fixCodeError f t (Json (Some c)) env s)) = hook s \<and>
         fixCount (snd (fixCodeError f t (Json (Some c)) env s)) = fixCount s \<and>
         fixLog (snd (fixCodeError f t (Json (Some c)) env s)) = fixLog s @ [(Wrench, ''Fixing: '' @ path tg)]"
proof -
  have "fixCodeError f t (Json (Some c)) env s = (False, finally_block s1)"
    by (simp add: fixCodeError_def st resume_same_content[OF c])
  then show ?thesis using start_suspended[OF st] by simp
qed

theorem unchanged_fix_is_noop_witness:
  "fixCodeError_start ''src/App.tsx'' ''boom''
     (app_init [FileNode ''App.tsx'' ''src/App.tsx'' File (Some ''code'') None] hook_init)
   = (Suspended (FileNode ''App.tsx'' ''src/App.tsx'' File (Some ''code'') None),
      snd (fixCodeError_start ''src/App.tsx'' ''boom''
        (app_init [FileNode ''App.tsx'' ''src/App.tsx'' File (Some ''code'') None] hook_init))) \<and>
   content (FileNode ''App.tsx'' ''src/App.tsx'' File (Some ''code'') None) = Some ''code'' \<and>
   files (snd (fixCodeError ''src/App.tsx'' ''boom'' (Json (Some ''code''))
                \<lparr>fs_engine = Boots 0, writeFile = None\<rparr>
                (app_init [FileNode ''App.tsx'' ''src/App.tsx'' File (Some ''code'') None] hook_init)))
     = [FileNode ''App.tsx'' ''src/App.tsx'' File (Some ''code'') None] \<and>
   written (hook (snd (fixCodeError ''src/App.tsx'' ''boom'' (Json (Some ''code''))
                \<lparr>fs_engine = Boots 0, writeFile = None\<rparr>
                (app_init [FileNode ''App.tsx'' ''src/App.tsx'' File (Some ''code'') None] hook_init)))) = [] \<and>
   fixLog (snd (fixCodeError ''src/App.tsx'' ''boom'' (Json (Some ''code''))
                \<lparr>fs_engine = Boots 0, writeFile = None\<rparr>
                (app_init [FileNode ''App.tsx'' ''src/App.tsx'' File (Some ''code'') None] hook_init)))
     = [(Wrench, ''Fixing: src/App.tsx'')]"
proof -
  let ?n = "FileNode ''App.tsx'' ''src/App.tsx'' File (Some ''code'') None"
  let ?s = "app_init [?n] hook_init"
  have st: "fst (fixCodeError_start ''src/App.tsx'' ''boom'' ?s) = Suspended ?n"
    by (simp add: fixCodeError_start_def app_init_def Let_def flattenFiles_def resolveTarget_def
        path_matches_def has_content_def)
  then have st': "fixCodeError_start ''src/App.tsx'' ''boom'' ?s
      = (Suspended ?n, snd (fixCodeError_start ''src/App.tsx'' ''boom'' ?s))"
    by (metis prod.collapse)
  have c: "content ?n = Some ''code''" by simp
  show ?thesis
    using unchanged_fix_is_noop[OF st' c, of "\<lparr>fs_engine = Boots 0, writeFile = None\<rparr>"] st' c
    by (simp add: app_init_def hook_init_def)
qed

section \<open>Properties of the target-file resolution\<close>

lemma find_first:
  "\<forall>g \<in> set pre. \<not> P g \<Longrightarrow> P f \<Longrightarrow> find P (pre @ f # post) = Some f"
  by (induction pre) simp_all

text \<open>
  What the resolution computes. The three path tests (equal, ends with the candidate,
  contains the candidate without its first \<open>src/\<close>) are the alternatives of one search:
  the first file in flattened order that meets any of them is taken, if it has content.
  When that search finds no file with content and the candidate has a last segment, the
  result is the first file with that name.
\<close>

theorem resolveTarget_first_match:
  "(allFiles = pre @ f # post \<and>
    (\<forall>g \<in> set pre. \<not> (path g = errorFile \<or> endsWith (path g) errorFile \<or>
                          includesStr (path g) (replace_first ''src/'' [] errorFile))) \<and>
    (path f = errorFile \<or> endsWith (path f) errorFile \<or>
       includesStr (path f) (replace_first ''src/'' [] errorFile)) \<and>
    has_content (Some f)
    \<longrightarrow> resolveTarget allFiles errorFile = Some f) \<and>
   (\<not> has_content (find (path_matches errorFile) allFiles) \<and>
    last (split_on CHR ''/'' errorFile) \<noteq> []
    \<longrightarrow> resolveTarget allFiles errorFile
          = find (\<lambda>g. name g = last (split_on CHR ''/'' errorFile)) allFiles)"
proof (intro conjI impI)
  assume h: "allFiles = pre @ f # post \<and>
    (\<forall>g \<in> set pre. \<not> (path g = errorFile \<or> endsWith (path g) errorFile \<or>
                          includesStr (path g) (replace_first ''src/'' [] errorFile))) \<and>
    (path f = errorFile \<or> endsWith (path f) errorFile \<or>
       includesStr (path f) (replace_first ''src/'' [] errorFile)) \<and>
    has_content (Some f)"
  then have "\<forall>g \<in> set pre. \<not> path_matches errorFile g" and "path_matches errorFile f"
    by (simp_all add: path_matches_def)
  then have "find (path_matches errorFile) allFiles = Some f"
    using h find_first[of pre "path_matches errorFile" f post] by simp
  then show "resolveTarget allFiles errorFile = Some f"
    using h by (simp add: resolveTarget_def)
next
  assume "\<not> has_content (find (path_matches errorFile) allFiles) \<and>
    last (split_on CHR ''/'' errorFile) \<noteq> []"
  then show "resolveTarget allFiles errorFile
          = find (\<lambda>g. name g = last (split_on CHR ''/'' errorFile)) allFiles"
    by (simp add: resolveTarget_def Let_def)
qed

theorem resolveTarget_first_match_witness:
  "resolveTarget
     [FileNode ''AApp.tsx'' ''src/AApp.tsx'' File (Some ''a'') None,
      FileNode ''App.tsx'' ''src/App.tsx'' File (Some ''b'') None] ''src/App.tsx''
   = Some (FileNode ''AApp.tsx'' ''src/AApp.tsx'' File (Some ''a'') None) \<and>
   \<not> has_content (find (path_matches ''src/components/App.tsx'')
        [FileNode ''App.tsx'' ''proj/lib/App.tsx'' File (Some ''c'') None]) \<and>
   last (split_on CHR ''/'' ''src/components/App.tsx'') \<noteq> [] \<and>
   resolveTarget [FileNode ''App.tsx'' ''proj/lib/App.tsx'' File (Some ''c'') None] ''src/components/App.tsx''
   = Some (FileNode ''App.tsx'' ''proj/lib/App.tsx'' File (Some ''c'') None)"
proof -
  let ?a = "FileNode ''AApp.tsx'' ''src/AApp.tsx'' File (Some ''a'') None"
  let ?b = "FileNode ''App.tsx'' ''src/App.tsx'' File (Some ''b'') None"
  let ?c = "FileNode ''App.tsx'' ''proj/lib/App.tsx'' File (Some ''c'') None"
  have r: "replace_first ''src/'' [] ''src/App.tsx'' = ''App.tsx''"
    by (simp add: startsWith_def)
  have "includesStr ''src/AApp.tsx'' ''App.tsx''"
    by (simp add: startsWith_def)
  then have m: "includesStr (path ?a) (replace_first ''src/'' [] ''src/App.tsx'')"
    by (simp only: r FileNode.sel)
  have hc: "has_content (Some ?a)" by (simp add: has_content_def)
  have h1: "[?a, ?b] = [] @ ?a # [?b] \<and>
    (\<forall>g \<in> set []. \<not> (path g = ''src/App.tsx'' \<or> endsWith (path g) ''src/App.tsx'' \<or>
                          includesStr (path g) (replace_first ''src/'' [] ''src/App.tsx''))) \<and>
    (path ?a = ''src/App.tsx'' \<or> endsWith (path ?a) ''src/App.tsx'' \<or>
       includesStr (path ?a) (replace_first ''src/'' [] ''src/App.tsx'')) \<and>
    has_content (Some ?a)"
    using m hc by simp
  have one: "resolveTarget [?a, ?b] ''src/App.tsx'' = Some ?a"
    by (rule resolveTarget_first_match[THEN conjunct1, THEN mp, OF h1])
  have pm: "\<not> path_matches ''src/components/App.tsx'' ?c"
    by (simp add: path_matches_def endsWith_def startsWith_def)
  then have nf: "\<not> has_content (find (path_matches ''src/components/App.tsx'') [?c])"
    by (simp add: has_content_def)
  have ls: "last (split_on CHR ''/'' ''src/components/App.tsx'') = ''App.tsx''" by simp
  then have ls': "last (split_on CHR ''/'' ''src/components/App.tsx'') \<noteq> []" by simp
  have "resolveTarget [?c] ''src/components/App.tsx''
      = find (\<lambda>g. name g = last (split_on CHR ''/'' ''src/components/App.tsx'')) [?c]"
    by (rule resolveTarget_first_match[THEN conjunct2, THEN mp, OF conjI[OF nf ls']])
  then have two: "resolveTarget [?c] ''src/components/App.tsx'' = Some ?c"
    by (simp add: ls)
  show ?thesis by (intro conjI; fact)
qed

text \<open>
  C7 (the four criteria are applied in strict priority order, and a file that meets a
  higher one is always chosen over a file that meets only a lower one). The code joins
  its three path tests with \<open>||\<close> inside one \<open>find\<close>, so the first file in tree order
  that meets any of them wins. For the candidate \<open>src/App.tsx\<close>, the file
  \<open>src/AApp.tsx\<close> comes first and contains \<open>App.tsx\<close>: it is chosen although
  \<open>src/App.tsx\<close> itself is in the tree. For the candidate \<open>src/index.ts\<close>, the file
  \<open>src/components/index.ts\<close> comes first in the order of the extracted archive and is
  chosen although \<open>src/index.ts\<close> is in the tree.
\<close>

theorem weaker_match_chosen_over_exact:
  "resolveTarget
     (flattenFiles
        [FileNode ''src'' ''src'' Directory None
           (Some [FileNode ''AApp.tsx'' ''src/AApp.tsx'' File (Some ''a'') None,
                  FileNode ''App.tsx'' ''src/App.tsx'' File (Some ''b'') None])])
     ''src/App.tsx''
   = Some (FileNode ''AApp.tsx'' ''src/AApp.tsx'' File (Some ''a'') None) \<and>
   resolveTarget
     (flattenFiles
        [FileNode ''src'' ''src'' Directory None
           (Some [FileNode ''components'' ''src/components'' Directory None
                    (Some [FileNode ''index.ts'' ''src/components/index.ts'' File (Some ''c'') None]),
                  FileNode ''index.ts'' ''src/index.ts'' File (Some ''i'') None])])
     ''src/index.ts''
   = Some (FileNode ''index.ts'' ''src/components/index.ts'' File (Some ''c'') None)"
  by (simp add: flattenFiles_def resolveTarget_def path_matches_def has_content_def
      endsWith_def startsWith_def)

section \<open>Properties of parseError\<close>

lemma first_candidate_eq:
  "first_candidate ps text =
     (if \<exists>pattern \<in> set ps. test pattern text
      then map_option (\<lambda>m. (m, slice_last 500 text)) (exec filePattern text)
      else None)"
  by (induction ps) (auto split: option.splits)

lemma exec_here: "match_at re ys = Some m \<Longrightarrow> exec re ys = Some m"
  by (cases ys) simp_all

lemma exec_skip:
  "\<forall>i < length xs. match_at re (drop i (xs @ ys)) = None \<Longrightarrow> exec re (xs @ ys) = exec re ys"
proof (induction xs)
  case Nil
  then show ?case by simp
next
  case (Cons x xs)
  have z: "match_at re (x # xs @ ys) = None" using Cons.prems by fastforce
  have "\<forall>i < length xs. match_at re (drop i (xs @ ys)) = None"
  proof (intro allI impI)
    fix i assume "i < length xs"
    then have "Suc i < length (x # xs)" by simp
    then have "match_at re (drop (Suc i) ((x # xs) @ ys)) = None" using Cons.prems by blast
    then show "match_at re (drop i (xs @ ys)) = None" by simp
  qed
  then have "exec re (xs @ ys) = exec re ys" by (rule Cons.IH)
  then show ?case using z by simp
qed

lemma exec_found_later: "match_at re ys = Some m \<Longrightarrow> exec re (xs @ ys) \<noteq> None"
proof (induction xs)
  case Nil
  then show ?case by (simp add: exec_here)
next
  case (Cons x xs)
  then show ?case by (cases "match_at re (x # xs @ ys)") simp_all
qed

lemma import_signature_at_line:
  "match_at (hd patterns) (resolve_import_line @ post) = Some resolve_import_line"
  unfolding resolve_import_line_def
  by (simp add: patterns_def match_at_def startsWith_def quote_def notQuote_def)

lemma path_in_import_line:
  "exec filePattern (resolve_import_line @ post) = Some ''src/App.tsx''"
  unfolding resolve_import_line_def
  by (simp add: filePattern_def match_at_def startsWith_def isWordChar_def)

lemma parseError_at_import_line:
  assumes t: "join [CHR 0x0A] (slice_last 60 output) = pre @ resolve_import_line @ post"
    and n: "\<forall>i < length pre. match_at filePattern (drop i (pre @ resolve_import_line @ post)) = None"
  shows "parseError output = Some (''src/App.tsx'', slice_last 500 (pre @ resolve_import_line @ post))"
proof -
  let ?text = "pre @ resolve_import_line @ post"
  have "exec (hd patterns) ?text \<noteq> None"
    by (rule exec_found_later[OF import_signature_at_line])
  then have "test (hd patterns) ?text" by (simp add: test_def)
  moreover have "hd patterns \<in> set patterns" by (simp add: patterns_def)
  ultimately have sig: "\<exists>pattern \<in> set patterns. test pattern ?text" by blast
  have "exec filePattern ?text = exec filePattern (resolve_import_line @ post)"
    by (rule exec_skip[OF n])
  then have p: "exec filePattern ?text = Some ''src/App.tsx''"
    by (simp only: path_in_import_line)
  show ?thesis
    unfolding parseError_def t first_candidate_eq using sig p by simp
qed

text \<open>
  C6 (the extractor), as the code has it. \<open>parseError\<close> returns a candidate only when
  one of the signatures matches the recent text and the file pattern matches in it; with
  no match of the file pattern it returns nothing; and when both match, the file of the
  candidate is the leftmost match of the file pattern in the recent text, and the error
  is the last 500 characters of that text. Whenever the recent text contains the line
  \<^verbatim>\<open>Failed to resolve import './Foo' from 'src/App.tsx'\<close> and the file pattern
  matches at no position before that line, the file is \<open>src/App.tsx\<close>; so it is for the
  output that consists of that line alone.
\<close>

theorem parseError_needs_signature_and_path:
  "(parseError output = Some (file, err) \<longrightarrow>
      (\<exists>pattern \<in> set patterns. test pattern (join [CHR 0x0A] (slice_last 60 output))) \<and>
      exec filePattern (join [CHR 0x0A] (slice_last 60 output)) = Some file \<and>
      err = slice_last 500 (join [CHR 0x0A] (slice_last 60 output))) \<and>
   (exec filePattern (join [CHR 0x0A] (slice_last 60 output)) = None \<longrightarrow> parseError output = None) \<and>
   ((\<exists>pattern \<in> set patterns. test pattern (join [CHR 0x0A] (slice_last 60 output))) \<and>
    exec filePattern (join [CHR 0x0A] (slice_last 60 output)) = Some file \<longrightarrow>
      parseError output = Some (file, slice_last 500 (join [CHR 0x0A] (slice_last 60 output)))) \<and>
   parseError [resolve_import_line] = Some (''src/App.tsx'', resolve_import_line) \<and>
   (join [CHR 0x0A] (slice_last 60 output) = pre @ resolve_import_line @ post \<and>
    (\<forall>i < length pre. match_at filePattern (drop i (pre @ resolve_import_line @ post)) = None) \<longrightarrow>
      parseError output = Some (''src/App.tsx'', slice_last 500 (pre @ resolve_import_line @ post)))"
proof -
  have ex: "parseError [resolve_import_line] = Some (''src/App.tsx'', resolve_import_line)"
    unfolding resolve_import_line_def
    by (simp add: parseError_def patterns_def filePattern_def test_def match_at_def slice_last_def
        startsWith_def quote_def notQuote_def isWordChar_def)
  have old: "(parseError output = Some (file, err) \<longrightarrow>
      (\<exists>pattern \<in> set patterns. test pattern (join [CHR 0x0A] (slice_last 60 output))) \<and>
      exec filePattern (join [CHR 0x0A] (slice_last 60 output)) = Some file \<and>
      err = slice_last 500 (join [CHR 0x0A] (slice_last 60 output))) \<and>
   (exec filePattern (join [CHR 0x0A] (slice_last 60 output)) = None \<longrightarrow> parseError output = None) \<and>
   ((\<exists>pattern \<in> set patterns. test pattern (join [CHR 0x0A] (slice_last 60 output))) \<and>
    exec filePattern (join [CHR 0x0A] (slice_last 60 output)) = Some file \<longrightarrow>
      parseError output = Some (file, slice_last 500 (join [CHR 0x0A] (slice_last 60 output))))"
    unfolding parseError_def first_candidate_eq by (auto split: if_splits)
  have gen: "join [CHR 0x0A] (slice_last 60 output) = pre @ resolve_import_line @ post \<and>
    (\<forall>i < length pre. match_at filePattern (drop i (pre @ resolve_import_line @ post)) = None) \<longrightarrow>
      parseError output = Some (''src/App.tsx'', slice_last 500 (pre @ resolve_import_line @ post))"
    using parseError_at_import_line by blast
  show ?thesis
    by (intro conjI) (rule old[THEN conjunct1], rule old[THEN conjunct2, THEN conjunct1],
        rule old[THEN conjunct2, THEN conjunct2], rule ex, rule gen)
qed

theorem parseError_needs_signature_and_path_witness:
  "parseError [resolve_import_line] = Some (''src/App.tsx'', resolve_import_line) \<and>
   (\<exists>pattern \<in> set patterns. test pattern (join [CHR 0x0A] (slice_last 60 [resolve_import_line]))) \<and>
   exec filePattern (join [CHR 0x0A] (slice_last 60 [resolve_import_line])) = Some ''src/App.tsx'' \<and>
   exec filePattern (join [CHR 0x0A] (slice_last 60 [''x is not defined''])) = None \<and>
   parseError [''x is not defined''] = None \<and>
   join [CHR 0x0A] (slice_last 60 import_error_output)
     = (''oops'' @ [CHR 0x0A]) @ resolve_import_line @ (CHR 0x0A # ''  at plugin vite'') \<and>
   parseError import_error_output
     = Some (''src/App.tsx'',
             slice_last 500 ((''oops'' @ [CHR 0x0A]) @ resolve_import_line @ (CHR 0x0A # ''  at plugin vite'')))"
proof -
  note t1 = parseError_needs_signature_and_path[of "[resolve_import_line]" "''src/App.tsx''" resolve_import_line]
  note t2 = parseError_needs_signature_and_path[of "[''x is not defined'']"]
  note t3 = parseError_needs_signature_and_path[of import_error_output _ _ "''oops'' @ [CHR 0x0A]"
      "CHR 0x0A # ''  at plugin vite''"]
  have ex: "parseError [resolve_import_line] = Some (''src/App.tsx'', resolve_import_line)"
    by (rule t1[THEN conjunct2, THEN conjunct2, THEN conjunct2, THEN conjunct1])
  note sig = t1[THEN conjunct1, THEN mp, OF ex]
  have n: "exec filePattern (join [CHR 0x0A] (slice_last 60 [''x is not defined''])) = None"
    by (simp add: filePattern_def match_at_def slice_last_def startsWith_def)
  have none: "parseError [''x is not defined''] = None"
    by (rule t2[THEN conjunct2, THEN conjunct1, THEN mp, OF n])
  have j: "join [CHR 0x0A] (slice_last 60 import_error_output)
     = (''oops'' @ [CHR 0x0A]) @ resolve_import_line @ (CHR 0x0A # ''  at plugin vite'')"
    by (simp add: import_error_output_def slice_last_def)
  have q: "\<forall>i < length (''oops'' @ [CHR 0x0A]).
      match_at filePattern
        (drop i ((''oops'' @ [CHR 0x0A]) @ resolve_import_line @ (CHR 0x0A # ''  at plugin vite''))) = None"
  proof (intro allI impI)
    fix i :: nat assume "i < length (''oops'' @ [CHR 0x0A])"
    then have "i = 0 \<or> i = 1 \<or> i = 2 \<or> i = 3 \<or> i = 4" by (simp; arith)
    then show "match_at filePattern
        (drop i ((''oops'' @ [CHR 0x0A]) @ resolve_import_line @ (CHR 0x0A # ''  at plugin vite''))) = None"
      by (elim disjE) (simp_all add: filePattern_def match_at_def startsWith_def)
  qed
  have r: "parseError import_error_output
     = Some (''src/App.tsx'',
             slice_last 500 ((''oops'' @ [CHR 0x0A]) @ resolve_import_line @ (CHR 0x0A # ''  at plugin vite'')))"
    by (rule t3[THEN conjunct2, THEN conjunct2, THEN conjunct2, THEN conjunct2, THEN mp, OF conjI[OF j q]])
  show ?thesis
    by (intro conjI) (rule ex, rule sig[THEN conjunct1], rule sig[THEN conjunct2, THEN conjunct1],
        rule n, rule none, rule j, rule r)
qed

text \<open>
  C6 as stated (the file is \<open>src/App.tsx\<close> whenever the recent lines contain that line)
  fails when a source path stands earlier in the recent output: the file reported is
  that earlier path.
\<close>

theorem leftmost_path_is_reported:
  "parseError [''src/main.tsx:1:1'', resolve_import_line]
   = Some (''src/main.tsx'', ''src/main.tsx:1:1'' @ [CHR 0x0A] @ resolve_import_line)"
  unfolding resolve_import_line_def
  by (simp add: parseError_def patterns_def filePattern_def test_def match_at_def slice_last_def
      startsWith_def quote_def notQuote_def isWordChar_def)

section \<open>The attempt budget\<close>

text \<open>Both triggers set no timeout once the counter has reached \<open>MAX_FIX_ATTEMPTS\<close>.\<close>

lemma handleRuntimeError_at_budget:
  "MAX_FIX_ATTEMPTS \<le> fixAttempts (app c) \<Longrightarrow> handleRuntimeError d c = c"
  by (simp add: handleRuntimeError_def Let_def)

lemma terminal_effect_at_budget:
  "MAX_FIX_ATTEMPTS \<le> fixAttempts (app c) \<Longrightarrow> terminal_effect c = c\<lparr>terminalTimer := None\<rparr>"
  by (simp add: terminal_effect_def Let_def)

text \<open>
  C2 (the counter never exceeds \<open>MAX_FIX_ATTEMPTS\<close>, and no fixer call is made once it
  has reached it). The budget is tested when a trigger sets its timeout, not by
  \<open>fixCodeError\<close> when the timeout fires. In the session \<open>overrun_trace\<close> two timeouts are
  set while the counter is at 14: when the first has fired the counter is at 15 with 15
  requests posted, and when the second fires the counter goes to 16 and a 16th request
  is posted.
\<close>

theorem attempts_exceed_budget:
  "MAX_FIX_ATTEMPTS = 15 \<and>
   fixAttempts (app (session_run (butlast overrun_trace) (session_init two_files running_hook))) = 15 \<and>
   length (fixerRequests (app (session_run (butlast overrun_trace) (session_init two_files running_hook)))) = 15 \<and>
   fixAttempts (app (session_run overrun_trace (session_init two_files running_hook))) = 16 \<and>
   length (fixerRequests (app (session_run overrun_trace (session_init two_files running_hook)))) = 16"
  by code_simp

end
